theory Spec2Isabelle
  imports Complex_Main "HOL-Library.Log_Nat" "HOL-Library.Sublist" "HOL-Library.AList"
begin

section \<open>JavaScript numbers\<close>

text \<open>
  A JavaScript number is an IEEE 754 binary64 value.  The finite ones are reals; the
  two zeros are identified (no operation below tells them apart).
\<close>

datatype jsnum = Num real | PInf | NInf | NaN

definition pow2 :: "int \<Rightarrow> real" where
  "pow2 k = (if 0 \<le> k then 2 ^ nat k else 1 / 2 ^ nat (- k))"

text \<open>
  The binary exponent \<open>e\<close> of a positive number, \<open>2^e \<le> q < 2^(e+1)\<close>: from the
  number of bits of its integer part when \<open>q \<ge> 1\<close>, of its inverse otherwise.
\<close>

definition ilog2 :: "real \<Rightarrow> int" where
  "ilog2 q = (if 1 \<le> q then bitlen \<lfloor>q\<rfloor> - 1 else - bitlen (\<lceil>1 / q\<rceil> - 1))"

definition round_half_even :: "real \<Rightarrow> int" where
  "round_half_even q =
     (let f = \<lfloor>q\<rfloor>; r = q - of_int f
      in if r < 1 / 2 then f else if 1 / 2 < r then f + 1
         else if even f then f else f + 1)"

text \<open>
  Rounding of an exact result to binary64, to nearest with ties to even: 53 significant
  bits, the subnormal spacing below \<open>2^-1022\<close>, overflow to infinity from \<open>2^1024\<close>.
\<close>

definition round_double_pos :: "real \<Rightarrow> jsnum" where
  "round_double_pos q =
     (let e = max (ilog2 q) (- 1022);
          ulp = pow2 (e - 52);
          v = of_int (round_half_even (q / ulp)) * ulp
      in if pow2 1024 \<le> v then PInf else Num v)"

fun js_neg :: "jsnum \<Rightarrow> jsnum" where
  "js_neg (Num x) = Num (- x)"
| "js_neg PInf = NInf"
| "js_neg NInf = PInf"
| "js_neg NaN = NaN"

definition round_double :: "real \<Rightarrow> jsnum" where
  "round_double q =
     (if q = 0 then Num 0
      else if 0 < q then round_double_pos q
      else js_neg (round_double_pos (- q)))"

text \<open>The sign of a number that is not NaN, for the products and quotients of infinities.\<close>

fun js_sign :: "jsnum \<Rightarrow> int option" where
  "js_sign (Num x) = Some (if x < 0 then - 1 else if x = 0 then 0 else 1)"
| "js_sign PInf = Some 1"
| "js_sign NInf = Some (- 1)"
| "js_sign NaN = None"

definition js_inf :: "int \<Rightarrow> jsnum" where
  "js_inf s = (if s = 0 then NaN else if 0 < s then PInf else NInf)"

text \<open>\<open>a * b\<close> and \<open>a / b\<close> on numbers.\<close>

fun js_mul :: "jsnum \<Rightarrow> jsnum \<Rightarrow> jsnum" where
  "js_mul (Num x) (Num y) = round_double (x * y)"
| "js_mul a b =
     (case (js_sign a, js_sign b) of
        (Some s, Some t) \<Rightarrow> js_inf (s * t)
      | _ \<Rightarrow> NaN)"

fun js_div :: "jsnum \<Rightarrow> jsnum \<Rightarrow> jsnum" where
  "js_div (Num x) (Num y) =
     (if y = 0 then js_inf (if x < 0 then - 1 else if x = 0 then 0 else 1)
      else round_double (x / y))"
| "js_div NaN b = NaN"
| "js_div a NaN = NaN"
| "js_div (Num x) b = Num 0"
| "js_div a (Num y) = (case js_sign a of Some s \<Rightarrow> js_inf (if y < 0 then - s else s) | None \<Rightarrow> NaN)"
| "js_div a b = NaN"

text \<open>\<open>Math.round\<close>: the nearest integer, a tie going to the larger one.\<close>

fun Math_round :: "jsnum \<Rightarrow> jsnum" where
  "Math_round (Num x) = Num (of_int \<lfloor>x + 1 / 2\<rfloor>)"
| "Math_round a = a"

text \<open>\<open>a > b\<close> and \<open>a < b\<close>: false as soon as one side is NaN.\<close>

fun js_gt :: "jsnum \<Rightarrow> jsnum \<Rightarrow> bool" where
  "js_gt (Num x) (Num y) = (y < x)"
| "js_gt PInf (Num y) = True"
| "js_gt PInf NInf = True"
| "js_gt (Num x) NInf = True"
| "js_gt a b = False"

definition js_lt :: "jsnum \<Rightarrow> jsnum \<Rightarrow> bool" where
  "js_lt a b = js_gt b a"


section \<open>Strings\<close>

text \<open>\<open>s.split('.')\<close>: the pieces between the dots; the empty string gives one empty piece.\<close>

fun split_dot :: "string \<Rightarrow> string list" where
  "split_dot [] = [[]]"
| "split_dot (c # cs) =
     (if c = CHR ''.'' then [] # split_dot cs
      else (case split_dot cs of
              [] \<Rightarrow> [[c]]
            | p # ps \<Rightarrow> (c # p) # ps))"

definition digit_of :: "char \<Rightarrow> nat option" where
  "digit_of c = map_of
     [(CHR ''0'', 0), (CHR ''1'', 1), (CHR ''2'', 2), (CHR ''3'', 3), (CHR ''4'', 4),
      (CHR ''5'', 5), (CHR ''6'', 6), (CHR ''7'', 7), (CHR ''8'', 8), (CHR ''9'', 9)] c"

fun decimal_value :: "nat \<Rightarrow> string \<Rightarrow> nat option" where
  "decimal_value acc [] = Some acc"
| "decimal_value acc (c # cs) =
     (case digit_of c of
        None \<Rightarrow> None
      | Some d \<Rightarrow> decimal_value (10 * acc + d) cs)"

text \<open>
  \<open>Number(s)\<close> is a function of the host.  The functions below take it as the parameter
  \<open>Number\<close>.  \<open>Number_dec\<close> is its restriction to the strings of decimal digits, where
  it is the binary64 nearest to the decimal value, and to the empty string, which is 0;
  a string with a letter such as \<open>beta\<close> is NaN.  The other forms the host reads (signs,
  exponents, radix prefixes, surrounding white space, \<open>Infinity\<close>) are outside this
  restriction, which is used for concrete versions only.
\<close>

definition Number_dec :: "string \<Rightarrow> jsnum" where
  "Number_dec s =
     (if s = [] then Num 0
      else (case decimal_value 0 s of
              None \<Rightarrow> NaN
            | Some n \<Rightarrow> round_double (of_nat n)))"

text \<open>The decimal digits of a number, as a template literal prints \<open>Date.now()\<close>.\<close>

definition digit_char :: "nat \<Rightarrow> char" where
  "digit_char d = ''0123456789'' ! d"

function show_nat :: "nat \<Rightarrow> string" where
  "show_nat n = (if n < 10 then [digit_char n] else show_nat (n div 10) @ [digit_char (n mod 10)])"
  by pat_completeness auto
termination
  by (relation "measure id") auto

declare show_nat.simps [simp del]

text \<open>A template literal prints an absent value as \<open>undefined\<close>.\<close>

definition template :: "string option \<Rightarrow> string" where
  "template v = (case v of None \<Rightarrow> ''undefined'' | Some s \<Rightarrow> s)"

section \<open>Module manager: version comparison\<close>

text \<open>\<open>parts[i] || 0\<close>: an index past the end, NaN and 0 all give 0.\<close>

fun js_or0 :: "jsnum option \<Rightarrow> jsnum" where
  "js_or0 None = Num 0"
| "js_or0 (Some NaN) = Num 0"
| "js_or0 (Some v) = v"

definition nth_opt :: "'a list \<Rightarrow> nat \<Rightarrow> 'a option" where
  "nth_opt xs i = (if i < length xs then Some (xs ! i) else None)"

function compareVersions_loop :: "jsnum list \<Rightarrow> jsnum list \<Rightarrow> nat \<Rightarrow> int" where
  "compareVersions_loop parts1 parts2 i =
     (if i < max (length parts1) (length parts2) then
        (let part1 = js_or0 (nth_opt parts1 i);
             part2 = js_or0 (nth_opt parts2 i)
         in if js_gt part1 part2 then 1
            else if js_lt part1 part2 then - 1
            else compareVersions_loop parts1 parts2 (i + 1))
      else 0)"
  by pat_completeness auto
termination
  by (relation "measure (\<lambda>(parts1, parts2, i). max (length parts1) (length parts2) - i)") auto

declare compareVersions_loop.simps [simp del]

definition compareVersions :: "(string \<Rightarrow> jsnum) \<Rightarrow> string \<Rightarrow> string \<Rightarrow> int" where
  "compareVersions Number v1 v2 =
     compareVersions_loop (map Number (split_dot v1)) (map Number (split_dot v2)) 0"

text \<open>
  The order of versions in the words of the specification: the components are compared
  as numbers from the left, a missing component counting as 0; 1 when the first version
  is greater, -1 when it is smaller, 0 when they are equal.
\<close>

fun version_order :: "real list \<Rightarrow> real list \<Rightarrow> int" where
  "version_order [] [] = 0"
| "version_order (x # xs) [] =
     (if 0 < x then 1 else if x < 0 then - 1 else version_order xs [])"
| "version_order [] (y # ys) =
     (if y < 0 then 1 else if 0 < y then - 1 else version_order [] ys)"
| "version_order (x # xs) (y # ys) =
     (if y < x then 1 else if x < y then - 1 else version_order xs ys)"


section \<open>Module manager: state\<close>

datatype jserror = JsError string

text \<open>
  An installed module: the manifest merged with the caller's metadata and the
  installation's own fields.
\<close>

record module =
  id_m :: string
  name_m :: string
  version_m :: string
  category_m :: string
  author_m :: string
  displayName_m :: "string option"
  installPath :: "string option"
  installedAt :: "nat option"
  enabled :: bool
  size_m :: nat


text \<open>The caller's metadata (\<open>moduleInfo\<close>): the properties it carries override the manifest's.\<close>

record moduleInfo =
  id_mi :: "string option"
  name_mi :: "string option"
  version_mi :: "string option"
  category_mi :: "string option"
  author_mi :: "string option"
  displayName_mi :: "string option"

text \<open>The effects on the file system, the store and the tool loader, in the order they happen.\<close>

datatype effect =
    Mkdir string
  | Extract string
  | Rm string
  | Rename string string
  | Unlink string
  | StoreSet "module list"
  | UnloadTool string

text \<open>
  The manager: the persisted list under the key \<open>installed-modules\<close>, the two in-memory
  maps, the paths that exist on disk, and the effects so far.
\<close>

record manager =
  modulesDir :: string
  store_installed :: "module list"
  installedModules :: "string \<Rightarrow> module option"
  activeModules :: "string \<Rightarrow> module option"
  disk :: "string list"
  effects :: "effect list"

text \<open>
  What the outside decides in one call: \<open>Date.now()\<close> for the staging directory and
  the date of \<open>installedAt\<close>, which file system calls fail, whether the tool loader
  fails, and the size the directory walk finds.
\<close>

record env =
  now :: nat
  installed_ms :: nat
  mkdir_fails :: "string \<Rightarrow> bool"
  extract_fails :: bool
  rm_fails :: "string \<Rightarrow> bool"
  rename_fails :: bool
  unlink_fails :: bool
  unload_fails :: "string \<Rightarrow> bool"
  dir_size :: nat


subsection \<open>Paths\<close>

text \<open>
  Paths are strings joined with a slash and taken as written: ids, names and categories
  are single segments.  The disk is the list of the paths that exist; a directory exists
  when it or something below it is listed.
\<close>

definition path_join :: "string \<Rightarrow> string \<Rightarrow> string" where
  "path_join a b = a @ ''/'' @ b"







subsection \<open>Registry\<close>

definition getInstalledModule :: "string \<Rightarrow> manager \<Rightarrow> module option \<times> manager" where
  "getInstalledModule moduleId s =
     (case installedModules s moduleId of
        Some m \<Rightarrow> (Some m, s)
      | None \<Rightarrow>
          (case find (\<lambda>m. id_m m = moduleId) (store_installed s) of
             None \<Rightarrow> (None, s)
           | Some m \<Rightarrow> (Some m, s\<lparr>installedModules := (installedModules s)(moduleId \<mapsto> m)\<rparr>)))"

definition getInstalledModules :: "manager \<Rightarrow> module list \<times> manager" where
  "getInstalledModules s =
     (store_installed s,
      s\<lparr>installedModules :=
          fold (\<lambda>m c. c(id_m m \<mapsto> m)) (store_installed s) (installedModules s)\<rparr>)"



subsection \<open>Disable and uninstall\<close>






subsection \<open>Install\<close>

definition falsy :: "string option \<Rightarrow> bool" where
  "falsy v = (v = None \<or> v = Some [])"












subsection \<open>Updates\<close>

text \<open>The catalog's reply to one query: \<open>success\<close> and the modules found, each with its version.\<close>

record catalog_module =
  id_c :: string
  version_c :: "string option"

record reply =
  success :: bool
  modules_r :: "catalog_module list"

record update =
  moduleId :: string
  currentVersion :: string
  latestVersion :: string
  updateInfo :: catalog_module

text \<open>
  The loop of \<open>checkForUpdates\<close>.  \<open>fetch\<close> gives the parsed reply to the query for a
  module name, \<open>None\<close> when the request or the parsing throws; a catalog version that is
  not a string makes \<open>compareVersions\<close> throw.  Both are caught and the module is skipped.
\<close>

fun checkForUpdates_loop :: "(string \<Rightarrow> jsnum) \<Rightarrow> (string \<Rightarrow> reply option) \<Rightarrow> module list
    \<Rightarrow> update list \<Rightarrow> update list" where
  "checkForUpdates_loop Number fetch [] updates = updates"
| "checkForUpdates_loop Number fetch (m # ms) updates =
     checkForUpdates_loop Number fetch ms
       (case fetch (name_m m) of
          None \<Rightarrow> updates
        | Some data \<Rightarrow>
            (case (if success data then modules_r data else []) of
               [] \<Rightarrow> updates
             | latestModule # _ \<Rightarrow>
                 (case version_c latestModule of
                    None \<Rightarrow> updates
                  | Some v \<Rightarrow>
                      if 0 < compareVersions Number v (version_m m) then
                        updates @ [\<lparr>moduleId = id_m m, currentVersion = version_m m,
                                     latestVersion = v, updateInfo = latestModule\<rparr>]
                      else updates)))"

fun getInstalledModule_each :: "string list \<Rightarrow> manager \<Rightarrow> module list \<times> manager" where
  "getInstalledModule_each [] s = ([], s)"
| "getInstalledModule_each (i # ids) s =
     (case getInstalledModule i s of
        (found, s1) \<Rightarrow>
          (case getInstalledModule_each ids s1 of
             (ms, s2) \<Rightarrow> ((case found of None \<Rightarrow> ms | Some m \<Rightarrow> m # ms), s2)))"

definition modules_to_check :: "string list option \<Rightarrow> manager \<Rightarrow> module list \<times> manager" where
  "modules_to_check moduleIds s =
     (case moduleIds of
        None \<Rightarrow> getInstalledModules s
      | Some ids \<Rightarrow> getInstalledModule_each ids s)"

definition checkForUpdates :: "(string \<Rightarrow> jsnum) \<Rightarrow> (string \<Rightarrow> reply option) \<Rightarrow> string list option
    \<Rightarrow> manager \<Rightarrow> update list \<times> manager" where
  "checkForUpdates Number fetch moduleIds s =
     (case modules_to_check moduleIds s of
        (modules, s1) \<Rightarrow> (checkForUpdates_loop Number fetch modules [], s1))"

text \<open>
  The catalog's version of a module in the words of the specification: the first entry
  of a successful reply to the query for the module's name.
\<close>

definition catalog_latest :: "(string \<Rightarrow> reply option) \<Rightarrow> module \<Rightarrow> catalog_module option" where
  "catalog_latest fetch m =
     (case fetch (name_m m) of
        None \<Rightarrow> None
      | Some data \<Rightarrow>
          if success data then (case modules_r data of [] \<Rightarrow> None | c # _ \<Rightarrow> Some c)
          else None)"

section \<open>Download queue manager: state\<close>

text \<open>The status strings \<open>queued\<close>, \<open>downloading\<close>, \<open>paused\<close>, \<open>complete\<close>, \<open>error\<close>, \<open>cancelled\<close>.\<close>

datatype status = Queued | Downloading | Paused | Complete | Error | Cancelled

record download =
  id_d :: string
  name_d :: "string option"
  displayName_d :: "string option"
  downloadUrl :: "string option"
  version_d :: "string option"
  status :: status
  progress :: jsnum
  downloadedBytes :: nat
  totalBytes :: int
  speed :: jsnum
  timeRemaining :: "jsnum option"
  addedAt :: nat
  startedAt :: "nat option"
  completedAt :: "nat option"
  error :: "string option"
  filePath :: "string option"

text \<open>The argument of \<open>addToQueue\<close>; \<open>None\<close> is an absent property.\<close>

record downloadInfo =
  id_i :: "string option"
  name_i :: "string option"
  displayName_i :: "string option"
  downloadUrl_i :: "string option"
  version_i :: "string option"

text \<open>
  An entry of \<open>activeDownloads\<close>: the descriptor, by reference, and the request once
  \<open>downloadFile\<close> has stored it.
\<close>

record active =
  download_a :: nat
  request :: "nat option"

record queues =
  scheduled_v :: "download list"
  upNext_v :: "download list"
  complete_v :: "download list"
  activeDownloads_v :: "download list"

datatype event =
    QueuesUpdated queues
  | DownloadStarted download
  | DownloadProgress download
  | DownloadComplete download
  | DownloadError download
  | DownloadPaused download
  | DownloadCancelled download

text \<open>
  The manager.  Descriptors are objects shared between the queues and the active map,
  so they live in \<open>heap\<close> and the queues hold references.  \<open>activeDownloads\<close> is the
  \<open>Map\<close> in insertion order, \<open>persisted\<close> is the value under the store key
  \<open>download-queues\<close>, \<open>events\<close> are the events emitted so far, \<open>files\<close> the destination
  files on disk, and \<open>destroyed\<close> the requests on which \<open>destroy()\<close> was called.
\<close>

record dqm =
  heap :: "nat \<Rightarrow> download"
  next_ref :: nat
  scheduled :: "nat list"
  upNext :: "nat list"
  complete_q :: "nat list"
  activeDownloads :: "(string \<times> active) list"
  pausedDownloads :: "string set"
  persisted :: "download list \<times> download list \<times> download list"
  events :: "event list"
  files :: "string set"
  next_request :: nat
  destroyed :: "nat set"

definition getAllQueues :: "dqm \<Rightarrow> queues" where
  "getAllQueues s =
     \<lparr>scheduled_v = map (heap s) (scheduled s),
      upNext_v = map (heap s) (upNext s),
      complete_v = map (heap s) (complete_q s),
      activeDownloads_v = map (\<lambda>(k, a). heap s (download_a a)) (activeDownloads s)\<rparr>"

definition emit :: "event \<Rightarrow> dqm \<Rightarrow> dqm" where
  "emit ev s = s\<lparr>events := events s @ [ev]\<rparr>"

definition saveQueues :: "dqm \<Rightarrow> dqm" where
  "saveQueues s =
     emit (QueuesUpdated (getAllQueues s))
       (s\<lparr>persisted := (map (heap s) (scheduled s), map (heap s) (complete_q s),
                        map (heap s) (upNext s))\<rparr>)"

text \<open>\<open>a || b\<close> on strings: \<open>b\<close> when \<open>a\<close> is absent or empty.\<close>

definition js_or :: "string option \<Rightarrow> string option \<Rightarrow> string option" where
  "js_or a b = (if falsy a then b else a)"

definition generateDownloadId :: "nat \<Rightarrow> downloadInfo \<Rightarrow> string" where
  "generateDownloadId now_ms moduleInfo =
     template (js_or (id_i moduleInfo) (name_i moduleInfo)) @ ''-'' @ show_nat now_ms"

text \<open>\<open>xs.findIndex(p)\<close> and \<open>xs.splice(i, 1)\<close>.\<close>

fun findIndex :: "('a \<Rightarrow> bool) \<Rightarrow> 'a list \<Rightarrow> nat option" where
  "findIndex p [] = None"
| "findIndex p (x # xs) = (if p x then Some 0 else map_option Suc (findIndex p xs))"

definition splice1 :: "nat \<Rightarrow> 'a list \<Rightarrow> 'a list" where
  "splice1 i xs = take i xs @ drop (Suc i) xs"

definition has_id :: "dqm \<Rightarrow> string \<Rightarrow> nat \<Rightarrow> bool" where
  "has_id s downloadId r = (id_d (heap s r) = downloadId)"

definition set_download :: "nat \<Rightarrow> (download \<Rightarrow> download) \<Rightarrow> dqm \<Rightarrow> dqm" where
  "set_download r f s = s\<lparr>heap := (heap s)(r := f (heap s r))\<rparr>"

section \<open>Download queue manager: queue operations\<close>

text \<open>
  \<open>addToQueue\<close>.  \<open>now_ms\<close> is \<open>Date.now()\<close> in \<open>generateDownloadId\<close> and \<open>added\<close> the
  date of \<open>addedAt\<close>.  The object literal puts the generated id first and spreads
  \<open>downloadInfo\<close> after it, so an \<open>id\<close> of \<open>downloadInfo\<close> replaces the generated one.
\<close>

definition addToQueue :: "nat \<Rightarrow> nat \<Rightarrow> downloadInfo \<Rightarrow> dqm \<Rightarrow> nat \<times> dqm" where
  "addToQueue now_ms added downloadInfo s =
     (let d = \<lparr>id_d = (case id_i downloadInfo of
                          Some i \<Rightarrow> i
                        | None \<Rightarrow> generateDownloadId now_ms downloadInfo),
                name_d = name_i downloadInfo,
                displayName_d = displayName_i downloadInfo,
                downloadUrl = downloadUrl_i downloadInfo,
                version_d = version_i downloadInfo,
                status = Queued,
                progress = Num 0,
                downloadedBytes = 0,
                totalBytes = 0,
                speed = Num 0,
                timeRemaining = None,
                addedAt = added,
                startedAt = None,
                completedAt = None,
                error = None,
                filePath = None\<rparr>;
          r = next_ref s;
          s1 = s\<lparr>heap := (heap s)(r := d), next_ref := Suc r, scheduled := scheduled s @ [r]\<rparr>
      in (r, saveQueues s1))"

definition moveToUpNext :: "string \<Rightarrow> dqm \<Rightarrow> jserror + nat \<times> dqm" where
  "moveToUpNext downloadId s =
     (case findIndex (has_id s downloadId) (scheduled s) of
        None \<Rightarrow> Inl (JsError ''Download not found in scheduled queue'')
      | Some i \<Rightarrow>
          (let d = scheduled s ! i;
               s1 = s\<lparr>scheduled := splice1 i (scheduled s), upNext := upNext s @ [d]\<rparr>
           in Inr (d, saveQueues s1)))"

definition moveToScheduled :: "string \<Rightarrow> dqm \<Rightarrow> jserror + nat \<times> dqm" where
  "moveToScheduled downloadId s =
     (case findIndex (has_id s downloadId) (upNext s) of
        None \<Rightarrow> Inl (JsError ''Download not found in up next queue'')
      | Some i \<Rightarrow>
          (let d = upNext s ! i;
               s1 = s\<lparr>upNext := splice1 i (upNext s), scheduled := scheduled s @ [d]\<rparr>
           in Inr (d, saveQueues s1)))"

definition cancelDownload :: "string \<Rightarrow> dqm \<Rightarrow> dqm" where
  "cancelDownload downloadId s =
     (let s1 = (case map_of (activeDownloads s) downloadId of
                  None \<Rightarrow> s
                | Some a \<Rightarrow>
                    s\<lparr>destroyed := (case request a of
                                       None \<Rightarrow> destroyed s
                                     | Some rq \<Rightarrow> insert rq (destroyed s)),
                      activeDownloads := AList.delete downloadId (activeDownloads s)\<rparr>);
          s2 = s1\<lparr>pausedDownloads := pausedDownloads s1 - {downloadId}\<rparr>
      in case findIndex (has_id s2 downloadId) (upNext s2) of
           None \<Rightarrow> s2
         | Some i \<Rightarrow>
             (let s3 = set_download (upNext s2 ! i) (\<lambda>d. d\<lparr>status := Cancelled\<rparr>) s2
              in emit (DownloadCancelled (heap s3 (upNext s2 ! i))) s3))"

definition removeFromQueue :: "string \<Rightarrow> dqm \<Rightarrow> bool \<times> dqm" where
  "removeFromQueue downloadId s =
     (let (found1, s1) = (case findIndex (has_id s downloadId) (scheduled s) of
                            None \<Rightarrow> (False, s)
                          | Some i \<Rightarrow> (True, s\<lparr>scheduled := splice1 i (scheduled s)\<rparr>));
          (found2, s2) = (case findIndex (has_id s1 downloadId) (upNext s1) of
                            None \<Rightarrow> (found1, s1)
                          | Some i \<Rightarrow> (True, s1\<lparr>upNext := splice1 i (upNext s1)\<rparr>));
          (found3, s3) = (if map_of (activeDownloads s2) downloadId \<noteq> None
                          then (True, cancelDownload downloadId s2)
                          else (found2, s2))
      in if found3 then (True, saveQueues s3) else (False, s3))"

definition pauseDownload :: "string \<Rightarrow> dqm \<Rightarrow> jserror + nat \<times> dqm" where
  "pauseDownload downloadId s =
     (case map_of (activeDownloads s) downloadId of
        None \<Rightarrow> Inl (JsError ''Download not active'')
      | Some a \<Rightarrow>
          (let s1 = s\<lparr>pausedDownloads := insert downloadId (pausedDownloads s)\<rparr>;
               s2 = set_download (download_a a) (\<lambda>d. d\<lparr>status := Paused\<rparr>) s1;
               s3 = saveQueues s2
           in Inr (download_a a, emit (DownloadPaused (heap s3 (download_a a))) s3)))"

section \<open>Download queue manager: starting a download\<close>

text \<open>
  \<open>startDownload\<close> up to its first \<open>await\<close>: the status, \<open>startedAt\<close>, the save, the
  active entry and the \<open>download-started\<close> event.
\<close>

definition startDownload_begin :: "nat \<Rightarrow> nat \<Rightarrow> dqm \<Rightarrow> dqm" where
  "startDownload_begin started d s =
     (let s1 = set_download d (\<lambda>x. x\<lparr>status := Downloading, startedAt := Some started\<rparr>) s;
          s2 = saveQueues s1;
          s3 = s2\<lparr>activeDownloads :=
                   AList.update (id_d (heap s2 d)) \<lparr>download_a = d, request = None\<rparr>
                     (activeDownloads s2)\<rparr>
      in emit (DownloadStarted (heap s3 d)) s3)"

text \<open>
  \<open>startDownload\<close> after the transfer has resolved: the descriptor becomes complete, leaves
  \<open>upNext\<close>, goes to the front of \<open>complete\<close>, and the active entry is dropped.
\<close>

definition startDownload_then :: "nat \<Rightarrow> string \<Rightarrow> nat \<Rightarrow> dqm \<Rightarrow> dqm" where
  "startDownload_then completed path d s =
     (let s1 = set_download d
                 (\<lambda>x. x\<lparr>status := Complete, progress := Num 100,
                         completedAt := Some completed, filePath := Some path\<rparr>) s;
          s2 = (case findIndex (has_id s1 (id_d (heap s1 d))) (upNext s1) of
                  None \<Rightarrow> s1
                | Some i \<Rightarrow> s1\<lparr>upNext := splice1 i (upNext s1)\<rparr>);
          s3 = s2\<lparr>complete_q := d # complete_q s2\<rparr>;
          s4 = s3\<lparr>activeDownloads := AList.delete (id_d (heap s3 d)) (activeDownloads s3)\<rparr>;
          s5 = saveQueues s4
      in emit (DownloadComplete (heap s5 d)) s5)"

text \<open>The \<open>catch\<close> of \<open>startDownload\<close>, for every rejection of the transfer; it throws again.\<close>

definition startDownload_catch :: "string \<Rightarrow> nat \<Rightarrow> dqm \<Rightarrow> dqm" where
  "startDownload_catch message d s =
     (let s1 = set_download d (\<lambda>x. x\<lparr>status := Error, error := Some message\<rparr>) s;
          s2 = s1\<lparr>activeDownloads := AList.delete (id_d (heap s1 d)) (activeDownloads s1)\<rparr>;
          s3 = saveQueues s2
      in emit (DownloadError (heap s3 d)) s3)"

text \<open>The \<open>catch\<close> of \<open>startNextDownload\<close> around \<open>startDownload\<close>; it throws again.\<close>

definition startNextDownload_catch :: "string \<Rightarrow> nat \<Rightarrow> dqm \<Rightarrow> dqm" where
  "startNextDownload_catch message d s =
     (let s1 = set_download d (\<lambda>x. x\<lparr>status := Error, error := Some message\<rparr>) s;
          s2 = saveQueues s1
      in emit (DownloadError (heap s2 d)) s2)"

text \<open>
  \<open>startNextDownload\<close> up to the first suspension.  \<open>None\<close> is the result \<open>null\<close>;
  \<open>Some d\<close> says that \<open>startDownload\<close> has been entered for \<open>d\<close>, the head of \<open>upNext\<close>.
\<close>

definition startNextDownload :: "nat \<Rightarrow> dqm \<Rightarrow> nat option \<times> dqm" where
  "startNextDownload started s =
     (case upNext s of
        [] \<Rightarrow> (None, s)
      | d # _ \<Rightarrow>
          if map_of (activeDownloads s) (id_d (heap s d)) \<noteq> None then (None, s)
          else (Some d, startDownload_begin started d s))"

text \<open>The destination file name and the URL.\<close>

definition alnum :: "char \<Rightarrow> bool" where
  "alnum c = (c \<in> set ''abcdefghijklmnopqrstuvwxyzABCDEFGHIJKLMNOPQRSTUVWXYZ0123456789'')"

definition fileName_of :: "download \<Rightarrow> string" where
  "fileName_of d =
     map (\<lambda>c. if alnum c then c else CHR ''_'') (template (js_or (name_d d) (Some ''download'')))
     @ ''-v'' @ template (js_or (version_d d) (Some ''1.0.0'')) @ ''.zip''"

definition fullUrl_of :: "string \<Rightarrow> string \<Rightarrow> string" where
  "fullUrl_of baseUrl u = (if prefix ''/'' u then baseUrl @ u else u)"

section \<open>Transfer\<close>

text \<open>
  What the response callback reads: the status code, the \<open>Location\<close> header, and
  \<open>parseInt\<close> of the \<open>Content-Length\<close> header, \<open>None\<close> for NaN.
\<close>

record response =
  statusCode :: nat
  location :: "string option"
  contentLength :: "int option"

datatype outcome = Resolved | Rejected string

text \<open>
  The variables of one call of \<open>downloadFile\<close>: its arguments, the request, the two
  clock readings, the byte counts, how its promise was settled, and whether \<open>close()\<close>
  was called on its write stream.
\<close>

record transfer =
  download_t :: nat
  url_t :: string
  filePath_t :: string
  request_t :: nat
  startTime :: nat
  lastUpdate :: nat
  totalBytes_t :: int
  downloadedBytes_t :: nat
  settled :: "outcome option"
  stream_closed :: bool

text \<open>\<open>resolve\<close> and \<open>reject\<close>: only the first call settles the promise.\<close>

definition settle :: "outcome \<Rightarrow> transfer \<Rightarrow> transfer" where
  "settle oc t = (if settled t = None then t\<lparr>settled := Some oc\<rparr> else t)"

text \<open>The body of the promise: the request is made and stored in the active entry.\<close>

definition downloadFile :: "nat \<Rightarrow> nat \<Rightarrow> string \<Rightarrow> string \<Rightarrow> nat \<Rightarrow> dqm \<Rightarrow> transfer \<times> dqm" where
  "downloadFile startT lastT url path d s =
     (let rq = next_request s;
          t = \<lparr>download_t = d, url_t = url, filePath_t = path, request_t = rq,
               startTime = startT, lastUpdate = lastT, totalBytes_t = 0,
               downloadedBytes_t = 0, settled = None, stream_closed = False\<rparr>;
          k = id_d (heap s d)
      in (t, s\<lparr>next_request := Suc rq,
               activeDownloads :=
                 (case map_of (activeDownloads s) k of
                    None \<Rightarrow> activeDownloads s
                  | Some a \<Rightarrow> AList.update k (a\<lparr>request := Some rq\<rparr>) (activeDownloads s))\<rparr>))"

text \<open>
  The response callback.  The third component is the URL of a redirect to follow with
  a new call of \<open>downloadFile\<close>.  On status 200 the write stream creates the file.
\<close>

definition on_response :: "response \<Rightarrow> transfer \<Rightarrow> dqm \<Rightarrow> transfer \<times> dqm \<times> string option" where
  "on_response resp t s =
     (if statusCode resp = 302 \<or> statusCode resp = 301 then
        (if \<not> falsy (location resp) then (t, s, location resp)
         else (settle (Rejected ''Redirect location not found'') t, s, None))
      else if statusCode resp \<noteq> 200 then
        (settle (Rejected (''Download failed with status '' @ show_nat (statusCode resp))) t,
         s, None)
      else
        (let totalB = (case contentLength resp of None \<Rightarrow> 0 | Some n \<Rightarrow> n);
             s1 = set_download (download_t t) (\<lambda>x. x\<lparr>totalBytes := totalB\<rparr>) s
         in (t\<lparr>totalBytes_t := totalB, downloadedBytes_t := 0\<rparr>,
             s1\<lparr>files := insert (filePath_t t) (files s1)\<rparr>, None)))"

definition progress_of :: "nat \<Rightarrow> int \<Rightarrow> jsnum" where
  "progress_of downloaded totalB =
     Math_round (js_mul (js_div (Num (of_nat downloaded)) (Num (of_int totalB))) (Num 100))"

text \<open>
  The \<open>data\<close> callback for a chunk of \<open>len\<close> bytes at clock \<open>now_ms\<close>.  When the
  download is paused it destroys the request, closes the write stream and rejects.
\<close>

definition on_data :: "nat \<Rightarrow> nat \<Rightarrow> transfer \<Rightarrow> dqm \<Rightarrow> transfer \<times> dqm" where
  "on_data len now_ms t s =
     (let d = download_t t
      in if id_d (heap s d) \<in> pausedDownloads s then
           (settle (Rejected ''Download paused'') (t\<lparr>stream_closed := True\<rparr>),
            s\<lparr>destroyed := insert (request_t t) (destroyed s)\<rparr>)
         else
           (let downloaded = downloadedBytes_t t + len;
                t1 = t\<lparr>downloadedBytes_t := downloaded\<rparr>;
                s1 = set_download d (\<lambda>x. x\<lparr>downloadedBytes := downloaded\<rparr>) s;
                s2 = (if 0 < totalBytes_t t
                      then set_download d
                             (\<lambda>x. x\<lparr>progress := progress_of downloaded (totalBytes_t t)\<rparr>) s1
                      else s1)
            in if 500 \<le> int now_ms - int (lastUpdate t) then
                 (let elapsed = js_div (Num (of_int (int now_ms - int (startTime t)))) (Num 1000);
                      spd = js_div (Num (of_nat downloaded)) elapsed;
                      s3 = set_download d (\<lambda>x. x\<lparr>speed := spd\<rparr>) s2;
                      s4 = (if 0 < totalBytes_t t \<and> js_gt spd (Num 0)
                            then set_download d
                                   (\<lambda>x. x\<lparr>timeRemaining :=
                                              Some (js_div (Num (of_int (totalBytes_t t - int downloaded))) spd)\<rparr>)
                                   s3
                            else s3)
                  in (t1\<lparr>lastUpdate := now_ms\<rparr>,
                      emit (DownloadProgress (heap s4 d)) (saveQueues s4)))
               else (t1, s2)))"

text \<open>The \<open>finish\<close> and \<open>error\<close> callbacks of the write stream, and \<open>error\<close> of the request.\<close>

definition on_finish :: "transfer \<Rightarrow> dqm \<Rightarrow> transfer \<times> dqm" where
  "on_finish t s = (settle Resolved (t\<lparr>stream_closed := True\<rparr>), s)"

definition on_write_error :: "string \<Rightarrow> transfer \<Rightarrow> dqm \<Rightarrow> transfer \<times> dqm" where
  "on_write_error message t s =
     (settle (Rejected message) t, s\<lparr>files := files s - {filePath_t t}\<rparr>)"

definition on_request_error :: "string \<Rightarrow> transfer \<Rightarrow> dqm \<Rightarrow> transfer \<times> dqm" where
  "on_request_error message t s = (settle (Rejected message) t, s)"

text \<open>
  \<open>response.pipe(writeStream)\<close> is called after the \<open>data\<close> callback is registered, so
  for every chunk the callback runs first and the pipe then writes the chunk to the
  stream.  A write to a stream on which \<open>close()\<close> was called fails (write after end),
  and the failure goes to the \<open>error\<close> callback of the stream.
\<close>

definition piped_write :: "transfer \<Rightarrow> dqm \<Rightarrow> transfer \<times> dqm" where
  "piped_write t s =
     (if stream_closed t then on_write_error ''write after end'' t s else (t, s))"

section \<open>A download from start to end\<close>

text \<open>
  What happens after \<open>startDownload\<close> has begun, in order: callbacks of the transfer, each
  with the clock reading it makes, and calls of \<open>pauseDownload\<close> and \<open>cancelDownload\<close>
  from outside.
\<close>

datatype step =
    Response nat response
  | Data nat nat
  | Finish nat
  | WriteError string
  | RequestError string
  | PauseCall string
  | CancelCall string

text \<open>
  When a callback settles the promise, \<open>startDownload\<close> continues: with its completion
  code after \<open>resolve\<close>, with its \<open>catch\<close> after \<open>reject\<close>, and then with the \<open>catch\<close> of
  \<open>startNextDownload\<close> when the download was started by it (\<open>via_next\<close>).
\<close>

definition continue_startDownload :: "bool \<Rightarrow> nat \<Rightarrow> transfer \<Rightarrow> transfer \<times> dqm \<Rightarrow> transfer \<times> dqm" where
  "continue_startDownload via_next now_ms t0 r =
     (case r of
        (t, s) \<Rightarrow>
          if settled t0 \<noteq> None then (t, s)
          else (case settled t of
                  None \<Rightarrow> (t, s)
                | Some Resolved \<Rightarrow> (t, startDownload_then now_ms (filePath_t t) (download_t t) s)
                | Some (Rejected message) \<Rightarrow>
                    (let s1 = startDownload_catch message (download_t t) s
                     in (t, if via_next then startNextDownload_catch message (download_t t) s1
                            else s1))))"

fun run_steps :: "bool \<Rightarrow> step list \<Rightarrow> transfer \<Rightarrow> dqm \<Rightarrow> transfer \<times> dqm" where
  "run_steps via_next [] t s = (t, s)"
| "run_steps via_next (Response now_ms resp # rest) t s =
     (case on_response resp t s of
        (t1, s1, Some redirectUrl) \<Rightarrow>
          (case downloadFile now_ms now_ms redirectUrl (filePath_t t1) (download_t t1) s1 of
             (t2, s2) \<Rightarrow> run_steps via_next rest t2 s2)
      | (t1, s1, None) \<Rightarrow>
          (case continue_startDownload via_next now_ms t (t1, s1) of
             (t2, s2) \<Rightarrow> run_steps via_next rest t2 s2))"
| "run_steps via_next (Data len now_ms # rest) t s =
     (case on_data len now_ms t s of
        (t1, s1) \<Rightarrow>
          (case continue_startDownload via_next now_ms t (piped_write t1 s1) of
             (t2, s2) \<Rightarrow> run_steps via_next rest t2 s2))"
| "run_steps via_next (Finish now_ms # rest) t s =
     (case continue_startDownload via_next now_ms t (on_finish t s) of
        (t1, s1) \<Rightarrow> run_steps via_next rest t1 s1)"
| "run_steps via_next (WriteError message # rest) t s =
     (case continue_startDownload via_next 0 t (on_write_error message t s) of
        (t1, s1) \<Rightarrow> run_steps via_next rest t1 s1)"
| "run_steps via_next (RequestError message # rest) t s =
     (case continue_startDownload via_next 0 t (on_request_error message t s) of
        (t1, s1) \<Rightarrow> run_steps via_next rest t1 s1)"
| "run_steps via_next (PauseCall downloadId # rest) t s =
     (case pauseDownload downloadId s of
        Inl err \<Rightarrow> run_steps via_next rest t s
      | Inr (d, s1) \<Rightarrow> run_steps via_next rest t s1)"
| "run_steps via_next (CancelCall downloadId # rest) t s =
     run_steps via_next rest t (cancelDownload downloadId s)"

text \<open>
  What the outside decides for one \<open>startDownload\<close>: the date of \<open>startedAt\<close>, the
  download directory of the settings, whether making it fails, the base URL of the
  environment, and the two clock readings at the start of \<open>downloadFile\<close>.
\<close>

record download_env =
  started_ms :: nat
  downloadPath :: string
  mkdir_fails_d :: bool
  baseUrl :: string
  start_ms :: nat
  last_ms :: nat

text \<open>
  \<open>startDownload\<close> after its first lines: the destination path, the directory, the URL,
  the transfer with the callbacks \<open>steps\<close>.  A failure before the transfer goes to the
  same \<open>catch\<close>.  The result holds the transfer when one was started.
\<close>

definition startDownload_rest :: "download_env \<Rightarrow> bool \<Rightarrow> step list \<Rightarrow> nat \<Rightarrow> dqm
    \<Rightarrow> transfer option \<times> dqm" where
  "startDownload_rest env via_next steps d s =
     (let path = path_join (downloadPath env) (fileName_of (heap s d));
          failed = (\<lambda>message.
                      let s1 = startDownload_catch message d s
                      in if via_next then startNextDownload_catch message d s1 else s1)
      in if mkdir_fails_d env then (None, failed ''mkdir failed'')
         else
           (case downloadUrl (heap s d) of
              None \<Rightarrow> (None, failed ''Cannot read properties of undefined'')
            | Some u \<Rightarrow>
                (case downloadFile (start_ms env) (last_ms env) (fullUrl_of (baseUrl env) u)
                        path d s of
                   (t, s1) \<Rightarrow>
                     (case run_steps via_next steps t s1 of
                        (t2, s2) \<Rightarrow> (Some t2, s2)))))"

definition startDownload :: "download_env \<Rightarrow> step list \<Rightarrow> nat \<Rightarrow> dqm \<Rightarrow> transfer option \<times> dqm" where
  "startDownload env steps d s =
     startDownload_rest env False steps d (startDownload_begin (started_ms env) d s)"

text \<open>\<open>startNextDownload\<close> with the download it starts.\<close>

definition startNextDownload_run :: "download_env \<Rightarrow> step list \<Rightarrow> dqm \<Rightarrow> transfer option \<times> dqm" where
  "startNextDownload_run env steps s =
     (case startNextDownload (started_ms env) s of
        (None, s1) \<Rightarrow> (None, s1)
      | (Some d, s1) \<Rightarrow> startDownload_rest env True steps d s1)"

section \<open>Sequences of queue operations\<close>

text \<open>
  The manager as its constructor leaves it when the store holds no queues.  A cell of
  the heap that no queue refers to holds \<open>blank\<close>.
\<close>

definition blank :: download where
  "blank =
     \<lparr>id_d = [], name_d = None, displayName_d = None, downloadUrl = None, version_d = None,
      status = Queued, progress = Num 0, downloadedBytes = 0, totalBytes = 0, speed = Num 0,
      timeRemaining = None, addedAt = 0, startedAt = None, completedAt = None, error = None,
      filePath = None\<rparr>"

definition new_manager :: dqm where
  "new_manager =
     \<lparr>heap = (\<lambda>r. blank), next_ref = 0, scheduled = [], upNext = [], complete_q = [],
      activeDownloads = [], pausedDownloads = {}, persisted = ([], [], []), events = [],
      files = {}, next_request = 0, destroyed = {}\<rparr>"

datatype op =
    AddToQueue nat nat downloadInfo
  | MoveToUpNext string
  | MoveToScheduled string
  | RemoveFromQueue string

text \<open>One call; a call that throws has changed nothing.\<close>

fun apply_op :: "op \<Rightarrow> dqm \<Rightarrow> dqm" where
  "apply_op (AddToQueue now_ms added info) s = snd (addToQueue now_ms added info s)"
| "apply_op (MoveToUpNext downloadId) s =
     (case moveToUpNext downloadId s of Inl err \<Rightarrow> s | Inr (d, s1) \<Rightarrow> s1)"
| "apply_op (MoveToScheduled downloadId) s =
     (case moveToScheduled downloadId s of Inl err \<Rightarrow> s | Inr (d, s1) \<Rightarrow> s1)"
| "apply_op (RemoveFromQueue downloadId) s = snd (removeFromQueue downloadId s)"

fun run_ops :: "op list \<Rightarrow> dqm \<Rightarrow> dqm" where
  "run_ops [] s = s"
| "run_ops (x # xs) s = run_ops xs (apply_op x s)"

text \<open>The ids of the descriptors in a queue.\<close>

definition ids_of :: "dqm \<Rightarrow> nat list \<Rightarrow> string list" where
  "ids_of s rs = map (\<lambda>r. id_d (heap s r)) rs"

text \<open>No id is in both \<open>scheduled\<close> and \<open>upNext\<close>.\<close>

definition exclusive :: "dqm \<Rightarrow> bool" where
  "exclusive s = (set (ids_of s (scheduled s)) \<inter> set (ids_of s (upNext s)) = {})"

text \<open>
  Every \<open>addToQueue\<close> of the sequence produces a descriptor whose id is in neither queue
  at that moment.
\<close>

fun fresh_ids :: "op list \<Rightarrow> dqm \<Rightarrow> bool" where
  "fresh_ids [] s = True"
| "fresh_ids (AddToQueue now_ms added info # xs) s =
     ((case addToQueue now_ms added info s of
         (r, s1) \<Rightarrow> id_d (heap s1 r) \<notin> set (ids_of s (scheduled s @ upNext s)))
      \<and> fresh_ids xs (apply_op (AddToQueue now_ms added info) s))"
| "fresh_ids (x # xs) s = fresh_ids xs (apply_op x s)"

text \<open>The references in the queues are allocated cells.\<close>

definition allocated :: "dqm \<Rightarrow> bool" where
  "allocated s = list_all (\<lambda>r. r < next_ref s) (scheduled s @ upNext s)"

text \<open>The invariant of the queue operations: allocated references with pairwise distinct ids.\<close>

definition queue_inv :: "dqm \<Rightarrow> bool" where
  "queue_inv s = (allocated s \<and> distinct (ids_of s (scheduled s @ upNext s)))"

text \<open>The descriptors carried by the \<open>download-error\<close> events among the emitted events.\<close>

fun error_events :: "event list \<Rightarrow> download list" where
  "error_events [] = []"
| "error_events (DownloadError d # evs) = d # error_events evs"
| "error_events (ev # evs) = error_events evs"

section \<open>Concrete states for the examples\<close>

definition demo_module :: module where
  "demo_module =
     \<lparr>id_m = ''clipper'', name_m = ''Clipper'', version_m = ''1.2.0'', category_m = ''tools'',
      author_m = ''oth'', displayName_m = Some ''Screen Clipper'',
      installPath = Some ''/m/tools/clipper'', installedAt = Some 5, enabled = False,
      size_m = 10\<rparr>"

definition demo_manager :: manager where
  "demo_manager =
     \<lparr>modulesDir = ''/m'', store_installed = [demo_module],
      installedModules = Map.empty, activeModules = Map.empty,
      disk = [''/m/tools/clipper'', ''/m/tools/clipper/module.json''], effects = []\<rparr>"

definition demo_fetch :: "string \<Rightarrow> reply option" where
  "demo_fetch n =
     (if n = ''Clipper''
      then Some \<lparr>success = True, modules_r = [\<lparr>id_c = ''clipper'', version_c = Some ''1.10.0''\<rparr>]\<rparr>
      else None)"

definition demo_info :: downloadInfo where
  "demo_info =
     \<lparr>id_i = None, name_i = Some ''demo'', displayName_i = Some ''Demo'',
      downloadUrl_i = Some ''/files/demo.zip'', version_i = Some ''1.0.0''\<rparr>"

definition clipper_info :: downloadInfo where
  "clipper_info =
     \<lparr>id_i = Some ''clipper'', name_i = Some ''Clipper'', displayName_i = Some ''Screen Clipper'',
      downloadUrl_i = Some ''/files/clipper.zip'', version_i = Some ''1.2.0''\<rparr>"

text \<open>One descriptor added and promoted, then started by \<open>startNextDownload\<close>.\<close>

definition demo_queued :: dqm where
  "demo_queued = run_ops [AddToQueue 1000 1000 demo_info, MoveToUpNext ''demo-1000''] new_manager"

definition demo_started :: dqm where
  "demo_started = snd (startNextDownload 2000 demo_queued)"

text \<open>
  The started download is transferred into \<open>/dl\<close>; the answers 200 with 1000 bytes and
  with 3 bytes announced.
\<close>

definition demo_env :: download_env where
  "demo_env =
     \<lparr>started_ms = 2000, downloadPath = ''/dl'', mkdir_fails_d = False,
      baseUrl = ''http://localhost:3000'', start_ms = 2000, last_ms = 2000\<rparr>"

definition demo_run :: "step list \<Rightarrow> transfer option \<times> dqm" where
  "demo_run steps = startNextDownload_run demo_env steps demo_queued"

text \<open>The same download at the moment \<open>downloadFile\<close> has made its request.\<close>

definition demo_transfer :: "transfer \<times> dqm" where
  "demo_transfer =
     downloadFile 2000 2000 ''http://localhost:3000/files/demo.zip'' ''/dl/demo-v1.0.0.zip'' 0
       demo_started"

definition ok_1000 :: response where
  "ok_1000 = \<lparr>statusCode = 200, location = None, contentLength = Some 1000\<rparr>"

definition ok_3 :: response where
  "ok_3 = \<lparr>statusCode = 200, location = None, contentLength = Some 3\<rparr>"








section \<open>Evaluation of closed terms\<close>

lemmas double_eval =
  round_double_def round_double_pos_def ilog2_def pow2_def round_half_even_def
  compute_bitlen Let_def

lemmas queue_eval =
  addToQueue_def moveToUpNext_def moveToScheduled_def removeFromQueue_def cancelDownload_def
  saveQueues_def emit_def getAllQueues_def generateDownloadId_def js_or_def falsy_def
  template_def show_nat.simps digit_char_def has_id_def splice1_def set_download_def
  new_manager_def blank_def ids_of_def exclusive_def Let_def



lemmas version_eval =
  compareVersions_def compareVersions_loop.simps Number_dec_def nth_opt_def js_lt_def
  digit_of_def double_eval

lemmas transfer_eval =
  downloadFile_def on_response_def on_data_def on_finish_def on_write_error_def
  on_request_error_def piped_write_def cancelDownload_def settle_def continue_startDownload_def pauseDownload_def
  startDownload_then_def startDownload_catch_def startNextDownload_catch_def
  progress_of_def fileName_of_def fullUrl_of_def alnum_def path_join_def
  saveQueues_def emit_def getAllQueues_def set_download_def has_id_def splice1_def
  falsy_def js_or_def template_def Let_def

lemmas demo_eval =
  ok_1000_def ok_3_def demo_transfer_def demo_started_def startNextDownload_def
  startDownload_begin_def demo_queued_def demo_info_def addToQueue_def moveToUpNext_def
  generateDownloadId_def show_nat.simps digit_char_def new_manager_def blank_def
  transfer_eval double_eval



section \<open>Version comparison: theorems\<close>

lemma js_or0_Num: "js_or0 (Some (Num x)) = Num x"
  by simp

lemma compareVersions_loop_numeric:
  "compareVersions_loop (map Num xs) (map Num ys) i = version_order (drop i xs) (drop i ys)"
proof (induction "max (length xs) (length ys) - i" arbitrary: i)
  case 0
  then have "\<not> i < max (length xs) (length ys)" and "length xs \<le> i" and "length ys \<le> i"
    by linarith+
  then show ?case by (subst compareVersions_loop.simps) simp
next
  case (Suc k)
  then have lt: "i < max (length xs) (length ys)" by linarith
  have step: "k = max (length xs) (length ys) - (i + 1)" using Suc.hyps(2) by linarith
  note IH = Suc.hyps(1)[OF step]
  show ?case
  proof (cases "i < length xs")
    case True
    note ix = True
    then have dx: "drop i xs = xs ! i # drop (i + 1) xs" by (simp add: Cons_nth_drop_Suc)
    show ?thesis
    proof (cases "i < length ys")
      case True
      then have dy: "drop i ys = ys ! i # drop (i + 1) ys" by (simp add: Cons_nth_drop_Suc)
      show ?thesis
        using ix True lt IH
        by (subst compareVersions_loop.simps) (simp add: dx dy nth_opt_def js_lt_def)
    next
      case False
      then have dy: "drop i ys = []" "drop (i + 1) ys = []" by simp_all
      show ?thesis
        using ix False lt IH
        by (subst compareVersions_loop.simps) (simp add: dx dy nth_opt_def js_lt_def)
    qed
  next
    case False
    note ix = False
    then have dx: "drop i xs = []" "drop (i + 1) xs = []" by simp_all
    from lt ix have iy: "i < length ys" by simp
    then have dy: "drop i ys = ys ! i # drop (i + 1) ys" by (simp add: Cons_nth_drop_Suc)
    show ?thesis
      using ix iy lt IH
      by (subst compareVersions_loop.simps) (simp add: dx dy nth_opt_def js_lt_def)
  qed
qed

lemma js_or0_NaN_zero: "js_or0 (map_option (\<lambda>v. if v = NaN then Num 0 else v) p) = js_or0 p"
  by (cases p rule: js_or0.cases) simp_all

lemma nth_opt_map: "nth_opt (map f xs) i = map_option f (nth_opt xs i)"
  by (simp add: nth_opt_def)

lemma compareVersions_loop_NaN_zero:
  "compareVersions_loop (map (\<lambda>v. if v = NaN then Num 0 else v) ps) (map (\<lambda>v. if v = NaN then Num 0 else v) qs) i
     = compareVersions_loop ps qs i"
proof (induction ps qs i rule: compareVersions_loop.induct)
  case (1 parts1 parts2 i)
  show ?case
    apply (subst compareVersions_loop.simps)
    apply (subst (2) compareVersions_loop.simps)
    using 1 by (simp add: nth_opt_map js_or0_NaN_zero Let_def)
qed

lemma compareVersions_loop_range: "compareVersions_loop ps qs i \<in> {- 1, 0, 1}"
proof (induction ps qs i rule: compareVersions_loop.induct)
  case (1 parts1 parts2 i)
  show ?case
    apply (subst compareVersions_loop.simps)
    using 1 by (auto simp: Let_def)
qed

lemma compareVersions_pos_iff: "0 < compareVersions Number v1 v2 \<longleftrightarrow> compareVersions Number v1 v2 = 1"
  using compareVersions_loop_range [of "map Number (split_dot v1)" "map Number (split_dot v2)" 0]
  by (auto simp: compareVersions_def)

lemma checkForUpdates_loop_append:
  "checkForUpdates_loop Number fetch ms acc = acc @ checkForUpdates_loop Number fetch ms []"
proof (induction ms arbitrary: acc)
  case Nil
  show ?case by simp
next
  case (Cons m ms)
  show ?case
    apply (simp only: checkForUpdates_loop.simps)
    apply (subst Cons.IH)
    apply (subst (2) Cons.IH)
    by (simp split: option.splits list.splits)
qed

lemma checkForUpdates_loop_set:
  "u \<in> set (checkForUpdates_loop Number fetch ms []) \<longleftrightarrow>
     (\<exists>m c v. m \<in> set ms \<and> catalog_latest fetch m = Some c \<and> version_c c = Some v \<and>
        compareVersions Number v (version_m m) = 1 \<and>
        u = \<lparr>moduleId = id_m m, currentVersion = version_m m, latestVersion = v, updateInfo = c\<rparr>)"
proof (induction ms)
  case Nil
  show ?case by simp
next
  case (Cons m ms)
  have one: "u \<in> set (case fetch (name_m m) of
          None \<Rightarrow> []
        | Some data \<Rightarrow>
            (case (if success data then modules_r data else []) of
               [] \<Rightarrow> []
             | latestModule # _ \<Rightarrow>
                 (case version_c latestModule of
                    None \<Rightarrow> []
                  | Some v \<Rightarrow>
                      if 0 < compareVersions Number v (version_m m) then
                        [] @ [\<lparr>moduleId = id_m m, currentVersion = version_m m,
                                     latestVersion = v, updateInfo = latestModule\<rparr>]
                      else []))) \<longleftrightarrow>
     (\<exists>c v. catalog_latest fetch m = Some c \<and> version_c c = Some v \<and>
        compareVersions Number v (version_m m) = 1 \<and>
        u = \<lparr>moduleId = id_m m, currentVersion = version_m m, latestVersion = v, updateInfo = c\<rparr>)"
  proof (cases "fetch (name_m m)")
    case None
    then show ?thesis by (simp add: catalog_latest_def)
  next
    case (Some data)
    show ?thesis
    proof (cases "success data")
      case False
      with Some show ?thesis by (simp add: catalog_latest_def)
    next
      case True
      show ?thesis
      proof (cases "modules_r data")
        case Nil
        with Some True show ?thesis by (simp add: catalog_latest_def)
      next
        case (Cons c cs)
        with Some True show ?thesis
          by (cases "version_c c") (auto simp: catalog_latest_def compareVersions_pos_iff)
      qed
    qed
  qed
  have "u \<in> set (checkForUpdates_loop Number fetch (m # ms) []) \<longleftrightarrow>
      (\<exists>c v. catalog_latest fetch m = Some c \<and> version_c c = Some v \<and>
        compareVersions Number v (version_m m) = 1 \<and>
        u = \<lparr>moduleId = id_m m, currentVersion = version_m m, latestVersion = v, updateInfo = c\<rparr>)
      \<or> u \<in> set (checkForUpdates_loop Number fetch ms [])"
    apply (simp only: checkForUpdates_loop.simps)
    apply (subst checkForUpdates_loop_append)
    by (simp only: set_append Un_iff one)
  then show ?case
    unfolding Cons.IH by (simp only: set_simps insert_iff) blast
qed

lemma compareVersions_numeric:
  assumes "map Number (split_dot v1) = map Num xs"
    and "map Number (split_dot v2) = map Num ys"
  shows "compareVersions Number v1 v2 = version_order xs ys"
  using assms compareVersions_loop_numeric [of xs ys 0]
  by (simp add: compareVersions_def)

lemma compareVersions_example: "compareVersions Number_dec ''1.2.0'' ''1.10.0'' = - 1"
  by (simp add: version_eval)

lemma getInstalledModule_again:
  "fst (getInstalledModule k (snd (getInstalledModule j s))) = fst (getInstalledModule k s)"
  by (auto simp: getInstalledModule_def split: option.splits)

lemma getInstalledModule_each_list:
  "fst (getInstalledModule_each ids s) = List.map_filter (\<lambda>k. fst (getInstalledModule k s)) ids"
proof (induction ids arbitrary: s)
  case Nil
  show ?case by (simp add: map_filter_simps)
next
  case (Cons i ids)
  have "List.map_filter (\<lambda>k. fst (getInstalledModule k (snd (getInstalledModule i s)))) ids
      = List.map_filter (\<lambda>k. fst (getInstalledModule k s)) ids"
    by (simp only: getInstalledModule_again)
  with Cons [of "snd (getInstalledModule i s)"] show ?case
    by (simp add: map_filter_simps case_prod_beta split: option.splits)
qed

lemma modules_to_check_list:
  "fst (modules_to_check moduleIds s)
     = (case moduleIds of
          None \<Rightarrow> store_installed s
        | Some ids \<Rightarrow> List.map_filter (\<lambda>k. fst (getInstalledModule k s)) ids)"
  by (simp add: modules_to_check_def getInstalledModules_def getInstalledModule_each_list
      split: option.splits)

lemma checkForUpdates_set:
  "u \<in> set (fst (checkForUpdates Number fetch moduleIds s)) \<longleftrightarrow>
     (\<exists>m c v. m \<in> set (case moduleIds of
                          None \<Rightarrow> store_installed s
                        | Some ids \<Rightarrow> List.map_filter (\<lambda>k. fst (getInstalledModule k s)) ids) \<and>
        catalog_latest fetch m = Some c \<and> version_c c = Some v \<and>
        compareVersions Number v (version_m m) = 1 \<and>
        u = \<lparr>moduleId = id_m m, currentVersion = version_m m, latestVersion = v, updateInfo = c\<rparr>)"
proof -
  have "fst (checkForUpdates Number fetch moduleIds s)
      = checkForUpdates_loop Number fetch (fst (modules_to_check moduleIds s)) []"
    by (simp add: checkForUpdates_def case_prod_beta)
  then show ?thesis
    by (simp only: checkForUpdates_loop_set modules_to_check_list)
qed

lemma round_half_even_of_int: "round_half_even (of_int k) = k"
  by (simp add: round_half_even_def)

lemma round_double_nat_exact:
  assumes "n \<le> 2 ^ 53"
  shows "round_double (real n) = Num (real n)"
proof -
  consider "n = 0" | "n = 2 ^ 53" | "0 < n" "n < 2 ^ 53"
    using assms by linarith
  then show ?thesis
  proof cases
    case 1
    then show ?thesis by (simp add: round_double_def)
  next
    case 2
    then show ?thesis by (simp add: double_eval)
  next
    case 3
    define e where "e = bitlen (int n) - 1"
    have "int n < 2 ^ nat 53"
      using 3(2) by (metis nat_numeral of_nat_less_iff of_nat_numeral of_nat_power)
    then have "bitlen (int n) \<le> 53"
      by (simp add: bitlen_le_iff_power)
    moreover have "bitlen (int n) \<noteq> 0"
      using 3(1) by (simp add: bitlen_eq_zero_iff)
    ultimately have e0: "0 \<le> e" and e52: "e \<le> 52"
      using bitlen_nonneg [of "int n"] by (simp_all add: e_def)
    have il: "ilog2 (real n) = e"
      using 3(1) by (simp add: ilog2_def e_def)
    have small: "\<not> pow2 1024 \<le> real n"
    proof -
      have "real n < 2 ^ 53"
        using 3(2) by (metis of_nat_less_iff of_nat_numeral of_nat_power)
      moreover have "(2::real) ^ 53 < 2 ^ 1024" by simp
      ultimately show ?thesis by (simp add: pow2_def)
    qed
    define k where "k = nat (52 - e)"
    have ulp: "pow2 (e - 52) = 1 / 2 ^ k"
      using e52 by (auto simp: pow2_def k_def)
    have q: "real n / (1 / 2 ^ k) = of_int (int n * 2 ^ k)"
      by simp
    have v: "real_of_int (round_half_even (real n / (1 / 2 ^ k))) * (1 / 2 ^ k) = real n"
      unfolding q round_half_even_of_int by simp
    have m: "max e (- 1022) = e"
      using e0 by simp
    have "round_double_pos (real n) = Num (real n)"
      unfolding round_double_pos_def il Let_def m ulp v using small by simp
    with 3(1) show ?thesis by (simp add: round_double_def)
  qed
qed

lemma Number_dec_exact:
  assumes "decimal_value 0 c = Some n" and "n \<le> 2 ^ 53"
  shows "Number_dec c = Num (real n)"
  using assms by (auto simp: Number_dec_def round_double_nat_exact)

lemma map_Number_dec_exact:
  "map (decimal_value 0) cs = map Some ns \<Longrightarrow> \<forall>n\<in>set ns. n \<le> 2 ^ 53
     \<Longrightarrow> map Number_dec cs = map Num (map real ns)"
proof (induction cs arbitrary: ns)
  case Nil
  then show ?case by simp
next
  case (Cons c cs)
  then obtain n ms where ns: "ns = n # ms" by (cases ns) auto
  with Cons.prems have "decimal_value 0 c = Some n" "n \<le> 2 ^ 53"
    "map (decimal_value 0) cs = map Some ms" "\<forall>n\<in>set ms. n \<le> 2 ^ 53"
    by simp_all
  then show ?case
    using Cons.IH [of ms] by (simp add: ns Number_dec_exact)
qed

lemma compareVersions_decimal:
  assumes "map (decimal_value 0) (split_dot v1) = map Some ns1"
    and "map (decimal_value 0) (split_dot v2) = map Some ns2"
    and "\<forall>n\<in>set (ns1 @ ns2). n \<le> 2 ^ 53"
  shows "compareVersions Number_dec v1 v2 = version_order (map real ns1) (map real ns2)"
proof -
  from assms(3) have "\<forall>n\<in>set ns1. n \<le> 2 ^ 53" and "\<forall>n\<in>set ns2. n \<le> 2 ^ 53"
    by simp_all
  with assms(1,2) show ?thesis
    by (intro compareVersions_numeric map_Number_dec_exact)
qed

text \<open>
  Claim C9, as amended.  When every dot-separated component of both versions is a run
  of decimal digits (an empty component reads as 0) whose value is at most \<open>2^53\<close>,
  \<open>compareVersions\<close> is the order of the specification on the written numbers: component
  by component from the left, a missing component counting as 0, with result 1, -1 or 0.
  In general, whenever \<open>Number\<close> yields a finite number for every component, it is that
  order on the numbers \<open>Number\<close> yields.  \<open>compareVersions("1.2.0", "1.10.0")\<close> is -1, the
  second being greater.  \<open>checkForUpdates\<close> looks at every module of the persisted list
  when it is given no ids, and otherwise, for each id given, at the module
  \<open>getInstalledModule\<close> returns for it, an id without a module being skipped; it returns an
  update for exactly those of them whose catalog version (the first entry of a
  successful reply) compares greater than the installed one (result 1).
\<close>

theorem compareVersions_componentwise:
  "(map (decimal_value 0) (split_dot v1) = map Some ns1
      \<and> map (decimal_value 0) (split_dot v2) = map Some ns2
      \<and> (\<forall>n\<in>set (ns1 @ ns2). n \<le> 2 ^ 53)
      \<longrightarrow> compareVersions Number_dec v1 v2 = version_order (map real ns1) (map real ns2))
   \<and> (map Number (split_dot v1) = map Num xs \<and> map Number (split_dot v2) = map Num ys
      \<longrightarrow> compareVersions Number v1 v2 = version_order xs ys)
   \<and> compareVersions Number_dec ''1.2.0'' ''1.10.0'' = - 1
   \<and> (u \<in> set (fst (checkForUpdates Number fetch moduleIds s)) \<longleftrightarrow>
        (\<exists>m c v. m \<in> set (case moduleIds of
                             None \<Rightarrow> store_installed s
                           | Some ids \<Rightarrow>
                               List.map_filter (\<lambda>k. fst (getInstalledModule k s)) ids) \<and>
           catalog_latest fetch m = Some c \<and> version_c c = Some v \<and>
           compareVersions Number v (version_m m) = 1 \<and>
           u = \<lparr>moduleId = id_m m, currentVersion = version_m m,
                 latestVersion = v, updateInfo = c\<rparr>))"
proof (intro conjI impI)
  assume "map (decimal_value 0) (split_dot v1) = map Some ns1
      \<and> map (decimal_value 0) (split_dot v2) = map Some ns2
      \<and> (\<forall>n\<in>set (ns1 @ ns2). n \<le> 2 ^ 53)"
  then show "compareVersions Number_dec v1 v2 = version_order (map real ns1) (map real ns2)"
    by (intro compareVersions_decimal) blast+
next
  assume "map Number (split_dot v1) = map Num xs \<and> map Number (split_dot v2) = map Num ys"
  then show "compareVersions Number v1 v2 = version_order xs ys"
    by (simp add: compareVersions_numeric)
next
  show "compareVersions Number_dec ''1.2.0'' ''1.10.0'' = - 1"
    by (rule compareVersions_example)
next
  show "u \<in> set (fst (checkForUpdates Number fetch moduleIds s)) \<longleftrightarrow>
        (\<exists>m c v. m \<in> set (case moduleIds of
                             None \<Rightarrow> store_installed s
                           | Some ids \<Rightarrow>
                               List.map_filter (\<lambda>k. fst (getInstalledModule k s)) ids) \<and>
           catalog_latest fetch m = Some c \<and> version_c c = Some v \<and>
           compareVersions Number v (version_m m) = 1 \<and>
           u = \<lparr>moduleId = id_m m, currentVersion = version_m m,
                 latestVersion = v, updateInfo = c\<rparr>)"
    by (rule checkForUpdates_set)
qed

lemma demo_updates:
  "fst (checkForUpdates Number_dec demo_fetch (Some [''absent'', ''clipper'']) demo_manager) =
     [\<lparr>moduleId = ''clipper'', currentVersion = ''1.2.0'', latestVersion = ''1.10.0'',
       updateInfo = \<lparr>id_c = ''clipper'', version_c = Some ''1.10.0''\<rparr>\<rparr>]"
  by (simp add: checkForUpdates_def modules_to_check_def getInstalledModule_def
      demo_manager_def demo_module_def demo_fetch_def version_eval)

theorem compareVersions_componentwise_witness:
  "map (decimal_value 0) (split_dot ''1.2.0'') = map Some [1, 2, 0]
   \<and> map (decimal_value 0) (split_dot ''1.10.0'') = map Some [1, 10, 0]
   \<and> map Number_dec (split_dot ''1.2.0'') = map Num [1, 2, 0]
   \<and> map Number_dec (split_dot ''1.10.0'') = map Num [1, 10, 0]
   \<and> compareVersions Number_dec ''1.2.0'' ''1.10.0''
       = version_order (map real [1, 2, 0]) (map real [1, 10, 0])
   \<and> version_order (map real [1, 2, 0]) (map real [1, 10, 0]) = - 1
   \<and> \<lparr>moduleId = ''clipper'', currentVersion = ''1.2.0'', latestVersion = ''1.10.0'',
       updateInfo = \<lparr>id_c = ''clipper'', version_c = Some ''1.10.0''\<rparr>\<rparr>
       \<in> set (fst (checkForUpdates Number_dec demo_fetch (Some [''absent'', ''clipper''])
                     demo_manager))
   \<and> List.map_filter (\<lambda>k. fst (getInstalledModule k demo_manager)) [''absent'', ''clipper'']
       = [demo_module]
   \<and> catalog_latest demo_fetch demo_module = Some \<lparr>id_c = ''clipper'', version_c = Some ''1.10.0''\<rparr>
   \<and> compareVersions Number_dec ''1.10.0'' (version_m demo_module) = 1"
proof -
  have a: "map (decimal_value 0) (split_dot ''1.2.0'') = map Some [1, 2, 0]"
    and b: "map (decimal_value 0) (split_dot ''1.10.0'') = map Some [1, 10, 0]"
    by (simp_all add: digit_of_def)
  have a': "map Number_dec (split_dot ''1.2.0'') = map Num [1, 2, 0]"
    and b': "map Number_dec (split_dot ''1.10.0'') = map Num [1, 10, 0]"
    by (simp_all add: version_eval)
  have le: "\<forall>n\<in>set ([1, 2, 0] @ [1, 10, 0 :: nat]). n \<le> 2 ^ 53"
    by simp
  have c: "List.map_filter (\<lambda>k. fst (getInstalledModule k demo_manager)) [''absent'', ''clipper'']
       = [demo_module]"
    by (simp add: map_filter_simps getInstalledModule_def demo_manager_def demo_module_def)
  have d: "catalog_latest demo_fetch demo_module
             = Some \<lparr>id_c = ''clipper'', version_c = Some ''1.10.0''\<rparr>"
    by (simp add: catalog_latest_def demo_fetch_def demo_module_def)
  have e: "compareVersions Number_dec ''1.10.0'' (version_m demo_module) = 1"
    by (simp add: demo_module_def version_eval)
  note inst = compareVersions_componentwise
    [where ?v1.0 = "''1.2.0''" and ?ns1.0 = "[1, 2, 0]" and ?v2.0 = "''1.10.0''"
       and ?ns2.0 = "[1, 10, 0]" and Number = Number_dec
       and xs = "[1, 2, 0]" and ys = "[1, 10, 0]"
       and u = "\<lparr>moduleId = ''clipper'', currentVersion = ''1.2.0'', latestVersion = ''1.10.0'',
          updateInfo = \<lparr>id_c = ''clipper'', version_c = Some ''1.10.0''\<rparr>\<rparr>"
       and fetch = demo_fetch and moduleIds = "Some [''absent'', ''clipper'']"
       and s = demo_manager]
  from inst a b le have f: "compareVersions Number_dec ''1.2.0'' ''1.10.0''
      = version_order (map real [1, 2, 0]) (map real [1, 10, 0])"
    by blast
  have g: "\<lparr>moduleId = ''clipper'', currentVersion = ''1.2.0'', latestVersion = ''1.10.0'',
       updateInfo = \<lparr>id_c = ''clipper'', version_c = Some ''1.10.0''\<rparr>\<rparr>
       \<in> set (fst (checkForUpdates Number_dec demo_fetch (Some [''absent'', ''clipper''])
                     demo_manager))"
    using inst c d e by (auto simp: demo_module_def)
  have h: "version_order (map real [1, 2, 0]) (map real [1, 10, 0]) = - 1"
    by simp
  show ?thesis using a b a' b' c d e f g h by simp
qed

text \<open>
  Claim C9 as stated fails: the components are compared as binary64 numbers.
  \<open>9007199254740993\<close> is greater than \<open>9007199254740992\<close>, and \<open>Number\<close> gives the same
  number for both, so \<open>compareVersions\<close> returns 0 where the order of the written numbers
  is 1.
\<close>

theorem compareVersions_binary64_counterexample:
  "decimal_value 0 ''9007199254740993'' = Some 9007199254740993
   \<and> decimal_value 0 ''9007199254740992'' = Some 9007199254740992
   \<and> Number_dec ''9007199254740993'' = Num 9007199254740992
   \<and> Number_dec ''9007199254740992'' = Num 9007199254740992
   \<and> compareVersions Number_dec ''9007199254740993'' ''9007199254740992'' = 0
   \<and> version_order [9007199254740993] [9007199254740992] = 1"
  by (simp add: version_eval)

lemma js_or0_equal_iff:
  "\<not> js_gt (js_or0 p) (js_or0 q) \<and> \<not> js_lt (js_or0 p) (js_or0 q) \<longleftrightarrow> js_or0 p = js_or0 q"
proof -
  have "\<not> js_gt a b \<and> \<not> js_gt b a \<longleftrightarrow> a = b" if "a \<noteq> NaN" "b \<noteq> NaN" for a b
    using that by (cases a; cases b) auto
  moreover have "js_or0 r \<noteq> NaN" for r
    by (cases r rule: js_or0.cases) simp_all
  ultimately show ?thesis
    by (simp add: js_lt_def)
qed

lemma compareVersions_loop_zero_iff:
  "compareVersions_loop ps qs i = 0 \<longleftrightarrow>
     (\<forall>j. i \<le> j \<and> j < max (length ps) (length qs)
          \<longrightarrow> js_or0 (nth_opt ps j) = js_or0 (nth_opt qs j))"
proof (induction ps qs i rule: compareVersions_loop.induct)
  case (1 parts1 parts2 i)
  show ?case
  proof (cases "i < max (length parts1) (length parts2)")
    case False
    then show ?thesis
      by (subst compareVersions_loop.simps) auto
  next
    case True
    show ?thesis
    proof (cases "js_or0 (nth_opt parts1 i) = js_or0 (nth_opt parts2 i)")
      case False
      with js_or0_equal_iff [of "nth_opt parts1 i" "nth_opt parts2 i"]
      have "js_gt (js_or0 (nth_opt parts1 i)) (js_or0 (nth_opt parts2 i))
          \<or> js_lt (js_or0 (nth_opt parts1 i)) (js_or0 (nth_opt parts2 i))"
        by blast
      then have "compareVersions_loop parts1 parts2 i \<noteq> 0"
        using True by (subst compareVersions_loop.simps) (auto simp: Let_def)
      moreover have "\<not> (\<forall>j. i \<le> j \<and> j < max (length parts1) (length parts2)
          \<longrightarrow> js_or0 (nth_opt parts1 j) = js_or0 (nth_opt parts2 j))"
        using True False by blast
      ultimately show ?thesis by blast
    next
      case eq: True
      with js_or0_equal_iff [of "nth_opt parts1 i" "nth_opt parts2 i"]
      have no: "\<not> js_gt (js_or0 (nth_opt parts1 i)) (js_or0 (nth_opt parts2 i))"
          "\<not> js_lt (js_or0 (nth_opt parts1 i)) (js_or0 (nth_opt parts2 i))"
        by blast+
      have "compareVersions_loop parts1 parts2 i = compareVersions_loop parts1 parts2 (i + 1)"
        using True no by (subst compareVersions_loop.simps) (simp add: Let_def)
      also have "\<dots> = 0 \<longleftrightarrow>
          (\<forall>j. i + 1 \<le> j \<and> j < max (length parts1) (length parts2)
               \<longrightarrow> js_or0 (nth_opt parts1 j) = js_or0 (nth_opt parts2 j))"
        using 1 [OF True refl refl] no by simp
      also have "\<dots> \<longleftrightarrow>
          (\<forall>j. i \<le> j \<and> j < max (length parts1) (length parts2)
               \<longrightarrow> js_or0 (nth_opt parts1 j) = js_or0 (nth_opt parts2 j))"
        using eq by (metis Suc_eq_plus1 Suc_leI le_neq_implies_less add_leD1 le_refl
            not_less_eq_eq order_le_less)
      finally show ?thesis .
    qed
  qed
qed

text \<open>
  Claim C10, as amended.  A component that \<open>Number\<close> turns into NaN is replaced by 0
  (\<open>NaN || 0\<close>) before any comparison, so the result is the one for the versions with 0 in
  the place of every such component.  The result is 0 exactly when, after this
  replacement and with 0 for a missing component, the two versions have equal components
  at every position.  \<open>compareVersions("1.0.0-beta", "1.0.0")\<close> is 0, and nothing is
  rejected.
\<close>

theorem compareVersions_nonnumeric_as_zero:
  "compareVersions Number v1 v2
     = compareVersions (\<lambda>s. if Number s = NaN then Num 0 else Number s) v1 v2
   \<and> (compareVersions Number v1 v2 = 0 \<longleftrightarrow>
        (\<forall>i < max (length (split_dot v1)) (length (split_dot v2)).
           js_or0 (nth_opt (map Number (split_dot v1)) i)
             = js_or0 (nth_opt (map Number (split_dot v2)) i)))
   \<and> compareVersions Number_dec ''1.0.0-beta'' ''1.0.0'' = 0"
proof (intro conjI)
  have m: "map (\<lambda>s. if Number s = NaN then Num 0 else Number s) ss
     = map (\<lambda>v. if v = NaN then Num 0 else v) (map Number ss)" for ss
    by simp
  show "compareVersions Number v1 v2
     = compareVersions (\<lambda>s. if Number s = NaN then Num 0 else Number s) v1 v2"
    by (simp only: compareVersions_def m [of "split_dot v1"] m [of "split_dot v2"]
        compareVersions_loop_NaN_zero)
  show "compareVersions Number v1 v2 = 0 \<longleftrightarrow>
        (\<forall>i < max (length (split_dot v1)) (length (split_dot v2)).
           js_or0 (nth_opt (map Number (split_dot v1)) i)
             = js_or0 (nth_opt (map Number (split_dot v2)) i))"
    by (simp add: compareVersions_def compareVersions_loop_zero_iff)
  show "compareVersions Number_dec ''1.0.0-beta'' ''1.0.0'' = 0"
    by (simp add: version_eval)
qed

theorem compareVersions_nonnumeric_as_zero_witness:
  "map (\<lambda>i. js_or0 (nth_opt (map Number_dec (split_dot ''1.0.0-beta'')) i)) [0, 1, 2]
     = [Num 1, Num 0, Num 0]
   \<and> map (\<lambda>i. js_or0 (nth_opt (map Number_dec (split_dot ''1.0.0'')) i)) [0, 1, 2]
     = [Num 1, Num 0, Num 0]
   \<and> max (length (split_dot ''1.0.0-beta'')) (length (split_dot ''1.0.0'')) = 3
   \<and> compareVersions Number_dec ''1.0.0-beta'' ''1.0.0'' = 0
   \<and> js_or0 (nth_opt (map Number_dec (split_dot ''1.beta'')) 1) = Num 0
   \<and> js_or0 (nth_opt (map Number_dec (split_dot ''1.5'')) 1) = Num 5
   \<and> compareVersions Number_dec ''1.beta'' ''1.5'' \<noteq> 0"
proof -
  have a: "map (\<lambda>i. js_or0 (nth_opt (map Number_dec (split_dot ''1.0.0-beta'')) i)) [0, 1, 2]
     = [Num 1, Num 0, Num 0]"
    and b: "map (\<lambda>i. js_or0 (nth_opt (map Number_dec (split_dot ''1.0.0'')) i)) [0, 1, 2]
     = [Num 1, Num 0, Num 0]"
    and c: "max (length (split_dot ''1.0.0-beta'')) (length (split_dot ''1.0.0'')) = 3"
    and d: "js_or0 (nth_opt (map Number_dec (split_dot ''1.beta'')) 1) = Num 0"
    and e: "js_or0 (nth_opt (map Number_dec (split_dot ''1.5'')) 1) = Num 5"
    and f: "max (length (split_dot ''1.beta'')) (length (split_dot ''1.5'')) = 2"
    by (simp_all add: version_eval)
  have "\<forall>i < max (length (split_dot ''1.0.0-beta'')) (length (split_dot ''1.0.0'')).
      js_or0 (nth_opt (map Number_dec (split_dot ''1.0.0-beta'')) i)
        = js_or0 (nth_opt (map Number_dec (split_dot ''1.0.0'')) i)"
    unfolding c by (simp add: less_Suc_eq numeral_3_eq_3 version_eval)
  with compareVersions_nonnumeric_as_zero [of Number_dec "''1.0.0-beta''" "''1.0.0''"]
  have g: "compareVersions Number_dec ''1.0.0-beta'' ''1.0.0'' = 0"
    by blast
  have "\<not> (\<forall>i < max (length (split_dot ''1.beta'')) (length (split_dot ''1.5'')).
      js_or0 (nth_opt (map Number_dec (split_dot ''1.beta'')) i)
        = js_or0 (nth_opt (map Number_dec (split_dot ''1.5'')) i))"
    unfolding f using d e by (auto intro!: exI [of _ 1])
  with compareVersions_nonnumeric_as_zero [of Number_dec "''1.beta''" "''1.5''"]
  have h: "compareVersions Number_dec ''1.beta'' ''1.5'' \<noteq> 0"
    by blast
  show ?thesis using a b c d e g h by simp
qed

text \<open>
  Claim C10 as stated fails: in \<open>1.beta\<close> against \<open>1.5\<close> the first components are equal
  and the second component of the first version is not a number, yet the result is -1.
\<close>

theorem compareVersions_nonnumeric_counterexample:
  "Number_dec ''beta'' = NaN \<and> Number_dec ''1'' = Num 1
   \<and> compareVersions Number_dec ''1.beta'' ''1.5'' = - 1"
  by (simp add: version_eval)

section \<open>Queue operations: theorems\<close>

lemma findIndex_Some: "findIndex p xs = Some i \<Longrightarrow> i < length xs \<and> p (xs ! i)"
proof (induction xs arbitrary: i)
  case Nil
  then show ?case by simp
next
  case (Cons x xs)
  then show ?case by (auto split: if_splits)
qed

lemma distinct_splice1: "distinct (map f xs) \<Longrightarrow> distinct (map f (splice1 i xs))"
proof -
  assume d: "distinct (map f xs)"
  have "map f (splice1 i xs) = take i (map f xs) @ drop (Suc i) (map f xs)"
    by (simp add: splice1_def take_map drop_map)
  moreover have "distinct (take i (map f xs) @ drop (Suc i) (map f xs))"
    using d set_take_disj_set_drop_if_distinct [of "map f xs" i "Suc i"]
    by (simp add: distinct_take distinct_drop)
  ultimately show ?thesis by simp
qed

lemma set_splice1_subset: "set (splice1 i xs) \<subseteq> set xs"
  by (auto simp: splice1_def dest: in_set_takeD in_set_dropD)

lemma distinct_move:
  assumes "i < length xs" and "distinct (map f (xs @ ys))"
  shows "distinct (map f (splice1 i xs @ (ys @ [xs ! i])))"
proof -
  have xs: "xs = take i xs @ xs ! i # drop (Suc i) xs"
    using assms(1) by (rule id_take_nth_drop)
  have "distinct (map f ((take i xs @ xs ! i # drop (Suc i) xs) @ ys))"
    using assms(2) xs by simp
  then show ?thesis
    by (auto simp: splice1_def)
qed

lemma distinct_move_back:
  assumes "i < length ys" and "distinct (map f (xs @ ys))"
  shows "distinct (map f ((xs @ [ys ! i]) @ splice1 i ys))"
proof -
  have ys: "ys = take i ys @ ys ! i # drop (Suc i) ys"
    using assms(1) by (rule id_take_nth_drop)
  have "distinct (map f (xs @ (take i ys @ ys ! i # drop (Suc i) ys)))"
    using assms(2) ys by simp
  then show ?thesis
    by (auto simp: splice1_def)
qed

lemma saveQueues_fields [simp]:
  "heap (saveQueues s) = heap s" "scheduled (saveQueues s) = scheduled s"
  "upNext (saveQueues s) = upNext s" "next_ref (saveQueues s) = next_ref s"
  by (simp_all add: saveQueues_def emit_def)

lemma queue_inv_addToQueue:
  assumes "queue_inv s"
    and "id_d (heap (snd (addToQueue n a info s)) (fst (addToQueue n a info s)))
           \<notin> set (ids_of s (scheduled s @ upNext s))"
  shows "queue_inv (snd (addToQueue n a info s))"
proof -
  let ?r = "next_ref s"
  have sel: "fst (addToQueue n a info s) = ?r"
    "scheduled (snd (addToQueue n a info s)) = scheduled s @ [?r]"
    "upNext (snd (addToQueue n a info s)) = upNext s"
    "next_ref (snd (addToQueue n a info s)) = Suc ?r"
    by (simp_all add: addToQueue_def Let_def)
  have old: "id_d (heap (snd (addToQueue n a info s)) r) = id_d (heap s r)" if "r < ?r" for r
    using that by (simp add: addToQueue_def Let_def)
  have lt: "\<forall>r \<in> set (scheduled s @ upNext s). r < ?r"
    using assms(1) by (simp add: queue_inv_def allocated_def list_all_iff)
  have same: "ids_of (snd (addToQueue n a info s)) rs = ids_of s rs"
    if "set rs \<subseteq> set (scheduled s @ upNext s)" for rs
    using that lt old by (auto simp: ids_of_def)
  have d: "distinct (ids_of s (scheduled s) @ ids_of s (upNext s))"
    using assms(1) by (simp add: queue_inv_def ids_of_def)
  have new: "id_d (heap (snd (addToQueue n a info s)) ?r)
      \<notin> set (ids_of s (scheduled s)) \<union> set (ids_of s (upNext s))"
    using assms(2) sel(1) by (simp add: ids_of_def)
  have "ids_of (snd (addToQueue n a info s)) (scheduled (snd (addToQueue n a info s))
          @ upNext (snd (addToQueue n a info s)))
        = ids_of s (scheduled s) @ [id_d (heap (snd (addToQueue n a info s)) ?r)]
          @ ids_of s (upNext s)"
    using same [of "scheduled s"] same [of "upNext s"]
    by (simp add: sel ids_of_def)
  then have "distinct (ids_of (snd (addToQueue n a info s))
      (scheduled (snd (addToQueue n a info s)) @ upNext (snd (addToQueue n a info s))))"
    using d new by auto
  moreover have "allocated (snd (addToQueue n a info s))"
    using lt by (fastforce simp: allocated_def list_all_iff sel less_Suc_eq)
  ultimately show ?thesis by (simp add: queue_inv_def)
qed

lemma queue_inv_moveToUpNext:
  assumes "queue_inv s" and "moveToUpNext k s = Inr (d, s1)"
  shows "queue_inv s1"
proof -
  from assms(2) obtain i where i: "findIndex (has_id s k) (scheduled s) = Some i"
    and s1: "s1 = saveQueues (s\<lparr>scheduled := splice1 i (scheduled s),
                                 upNext := upNext s @ [scheduled s ! i]\<rparr>)"
    by (auto simp: moveToUpNext_def Let_def split: option.splits)
  from i have len: "i < length (scheduled s)" by (simp add: findIndex_Some)
  have "distinct (map (\<lambda>r. id_d (heap s r)) (splice1 i (scheduled s) @ (upNext s @ [scheduled s ! i])))"
    using assms(1) len by (intro distinct_move) (simp_all add: queue_inv_def ids_of_def)
  moreover have "allocated s1"
    using assms(1) len set_splice1_subset [of i "scheduled s"]
    by (auto simp: s1 queue_inv_def allocated_def list_all_iff)
  ultimately show ?thesis
    by (simp add: queue_inv_def ids_of_def s1)
qed

lemma queue_inv_moveToScheduled:
  assumes "queue_inv s" and "moveToScheduled k s = Inr (d, s1)"
  shows "queue_inv s1"
proof -
  from assms(2) obtain i where i: "findIndex (has_id s k) (upNext s) = Some i"
    and s1: "s1 = saveQueues (s\<lparr>upNext := splice1 i (upNext s),
                                 scheduled := scheduled s @ [upNext s ! i]\<rparr>)"
    by (auto simp: moveToScheduled_def Let_def split: option.splits)
  from i have len: "i < length (upNext s)" by (simp add: findIndex_Some)
  have "distinct (map (\<lambda>r. id_d (heap s r)) ((scheduled s @ [upNext s ! i]) @ splice1 i (upNext s)))"
    using assms(1) len by (intro distinct_move_back) (simp_all add: queue_inv_def ids_of_def)
  moreover have "allocated s1"
    using assms(1) len set_splice1_subset [of i "upNext s"]
    by (auto simp: s1 queue_inv_def allocated_def list_all_iff)
  ultimately show ?thesis
    by (simp add: queue_inv_def ids_of_def s1)
qed

lemma cancelDownload_fields:
  "scheduled (cancelDownload k s) = scheduled s"
  "upNext (cancelDownload k s) = upNext s"
  "next_ref (cancelDownload k s) = next_ref s"
  "id_d (heap (cancelDownload k s) r) = id_d (heap s r)"
  by (simp_all add: cancelDownload_def Let_def emit_def set_download_def
      split: option.splits)

lemma distinct_splice1_left:
  assumes "distinct (map f (xs @ ys))"
  shows "distinct (map f (splice1 i xs @ ys))"
proof -
  have "distinct (map f (splice1 i xs))"
    using assms by (simp add: distinct_splice1)
  moreover have "set (map f (splice1 i xs)) \<subseteq> set (map f xs)"
    using set_splice1_subset [of i xs] by auto
  ultimately show ?thesis using assms by auto
qed

lemma distinct_splice1_right:
  assumes "distinct (map f (xs @ ys))"
  shows "distinct (map f (xs @ splice1 i ys))"
proof -
  have "distinct (map f (splice1 i ys))"
    using assms by (simp add: distinct_splice1)
  moreover have "set (map f (splice1 i ys)) \<subseteq> set (map f ys)"
    using set_splice1_subset [of i ys] by auto
  ultimately show ?thesis using assms by auto
qed

lemma removeFromQueue_fields:
  "(scheduled (snd (removeFromQueue k s)) = scheduled s
      \<or> (\<exists>i. scheduled (snd (removeFromQueue k s)) = splice1 i (scheduled s)))
   \<and> (upNext (snd (removeFromQueue k s)) = upNext s
      \<or> (\<exists>i. upNext (snd (removeFromQueue k s)) = splice1 i (upNext s)))
   \<and> next_ref (snd (removeFromQueue k s)) = next_ref s
   \<and> (\<forall>r. id_d (heap (snd (removeFromQueue k s)) r) = id_d (heap s r))"
  by (auto simp: removeFromQueue_def Let_def cancelDownload_fields
      split: option.splits prod.splits if_splits)

lemma queue_inv_removeFromQueue:
  assumes "queue_inv s"
  shows "queue_inv (snd (removeFromQueue k s))"
proof -
  let ?s = "snd (removeFromQueue k s)"
  note f = removeFromQueue_fields [of k s]
  have ids: "ids_of ?s rs = ids_of s rs" for rs
    using f by (simp add: ids_of_def)
  have d: "distinct (map (\<lambda>r. id_d (heap s r)) (scheduled s @ upNext s))"
    using assms by (simp add: queue_inv_def ids_of_def)
  from f have "scheduled ?s = scheduled s \<or> (\<exists>i. scheduled ?s = splice1 i (scheduled s))"
    by blast
  then have d1: "distinct (map (\<lambda>r. id_d (heap s r)) (scheduled ?s @ upNext s))"
  proof (elim disjE exE)
    assume e: "scheduled ?s = scheduled s"
    show ?thesis unfolding e by (rule d)
  next
    fix i
    assume e: "scheduled ?s = splice1 i (scheduled s)"
    show ?thesis unfolding e by (rule distinct_splice1_left [OF d])
  qed
  from f have "upNext ?s = upNext s \<or> (\<exists>i. upNext ?s = splice1 i (upNext s))"
    by blast
  then have "distinct (map (\<lambda>r. id_d (heap s r)) (scheduled ?s @ upNext ?s))"
  proof (elim disjE exE)
    assume e: "upNext ?s = upNext s"
    show ?thesis unfolding e by (rule d1)
  next
    fix i
    assume e: "upNext ?s = splice1 i (upNext s)"
    show ?thesis unfolding e by (rule distinct_splice1_right [OF d1])
  qed
  then have "distinct (ids_of s (scheduled ?s @ upNext ?s))"
    by (simp add: ids_of_def)
  then have "distinct (ids_of ?s (scheduled ?s @ upNext ?s))"
    by (simp only: ids)
  moreover have "set (scheduled ?s) \<subseteq> set (scheduled s)" "set (upNext ?s) \<subseteq> set (upNext s)"
    using f set_splice1_subset by fastforce+
  then have "allocated ?s"
    using assms f by (auto simp: queue_inv_def allocated_def list_all_iff)
  ultimately show ?thesis by (simp add: queue_inv_def)
qed

lemma queue_inv_apply_op:
  assumes "queue_inv s" and "fresh_ids [x] s"
  shows "queue_inv (apply_op x s)"
proof (cases x)
  case (AddToQueue n a info)
  then show ?thesis
    using assms queue_inv_addToQueue [of s n a info] by (simp split: prod.splits)
next
  case (MoveToUpNext k)
  then show ?thesis
    using assms queue_inv_moveToUpNext [of s k] by (auto split: sum.splits)
next
  case (MoveToScheduled k)
  then show ?thesis
    using assms queue_inv_moveToScheduled [of s k] by (auto split: sum.splits)
next
  case (RemoveFromQueue k)
  then show ?thesis
    using assms queue_inv_removeFromQueue [of s k] by simp
qed

lemma fresh_ids_Cons: "fresh_ids (x # xs) s \<longleftrightarrow> fresh_ids [x] s \<and> fresh_ids xs (apply_op x s)"
  by (cases x) simp_all

lemma queue_inv_run_ops: "queue_inv s \<Longrightarrow> fresh_ids xs s \<Longrightarrow> queue_inv (run_ops xs s)"
proof (induction xs arbitrary: s)
  case Nil
  then show ?case by simp
next
  case (Cons x xs)
  from Cons.prems(2) have "fresh_ids [x] s" and "fresh_ids xs (apply_op x s)"
    by (simp_all only: fresh_ids_Cons [of x xs s])
  with Cons.prems(1) Cons.IH [of "apply_op x s"] show ?case
    by (simp add: queue_inv_apply_op)
qed

lemma fresh_ids_take: "fresh_ids xs s \<Longrightarrow> fresh_ids (take n xs) s"
proof (induction xs arbitrary: s n)
  case Nil
  then show ?case by simp
next
  case (Cons x xs)
  show ?case
  proof (cases n)
    case 0
    then show ?thesis by simp
  next
    case (Suc m)
    from Cons.prems have "fresh_ids [x] s" and "fresh_ids xs (apply_op x s)"
      by (simp_all only: fresh_ids_Cons [of x xs s])
    with Cons.IH [of "apply_op x s" m] Suc show ?thesis
      by (simp add: fresh_ids_Cons [of x "take m xs" s])
  qed
qed

lemma queue_inv_exclusive: "queue_inv s \<Longrightarrow> exclusive s"
  by (auto simp: queue_inv_def exclusive_def ids_of_def)

lemma queue_inv_new_manager: "queue_inv new_manager"
  by (simp add: queue_inv_def allocated_def ids_of_def new_manager_def)

text \<open>
  The four queue operations themselves keep the ids apart: starting from the empty
  manager, after every prefix of a sequence of calls in which each \<open>addToQueue\<close> happens
  to produce an id that is in neither queue at that moment, the ids of \<open>scheduled\<close> and
  \<open>upNext\<close> together are pairwise distinct.  What can put one id into both queues is
  therefore only the id given to a new descriptor.
\<close>

lemma exclusive_when_ids_fresh:
  assumes "fresh_ids xs new_manager"
  shows "exclusive (run_ops (take n xs) new_manager)
     \<and> distinct (ids_of (run_ops (take n xs) new_manager)
          (scheduled (run_ops (take n xs) new_manager) @ upNext (run_ops (take n xs) new_manager)))"
proof -
  have "queue_inv (run_ops (take n xs) new_manager)"
    using assms by (intro queue_inv_run_ops queue_inv_new_manager fresh_ids_take)
  then show ?thesis
    by (simp add: queue_inv_exclusive) (simp add: queue_inv_def)
qed

lemma exclusive_when_ids_fresh_example:
  "fresh_ids [AddToQueue 1000 1000 demo_info, AddToQueue 1001 1001 demo_info,
              MoveToUpNext ''demo-1000'', RemoveFromQueue ''demo-1001'',
              MoveToScheduled ''demo-1000''] new_manager
   \<and> exclusive (run_ops (take 3 [AddToQueue 1000 1000 demo_info, AddToQueue 1001 1001 demo_info,
              MoveToUpNext ''demo-1000'', RemoveFromQueue ''demo-1001'',
              MoveToScheduled ''demo-1000'']) new_manager)
   \<and> ids_of (run_ops (take 3 [AddToQueue 1000 1000 demo_info, AddToQueue 1001 1001 demo_info,
              MoveToUpNext ''demo-1000'', RemoveFromQueue ''demo-1001'',
              MoveToScheduled ''demo-1000'']) new_manager)
        (upNext (run_ops (take 3 [AddToQueue 1000 1000 demo_info, AddToQueue 1001 1001 demo_info,
              MoveToUpNext ''demo-1000'', RemoveFromQueue ''demo-1001'',
              MoveToScheduled ''demo-1000'']) new_manager)) = [''demo-1000'']"
proof -
  have f: "fresh_ids [AddToQueue 1000 1000 demo_info, AddToQueue 1001 1001 demo_info,
              MoveToUpNext ''demo-1000'', RemoveFromQueue ''demo-1001'',
              MoveToScheduled ''demo-1000''] new_manager"
    by (simp add: demo_info_def queue_eval)
  have u: "ids_of (run_ops (take 3 [AddToQueue 1000 1000 demo_info, AddToQueue 1001 1001 demo_info,
              MoveToUpNext ''demo-1000'', RemoveFromQueue ''demo-1001'',
              MoveToScheduled ''demo-1000'']) new_manager)
        (upNext (run_ops (take 3 [AddToQueue 1000 1000 demo_info, AddToQueue 1001 1001 demo_info,
              MoveToUpNext ''demo-1000'', RemoveFromQueue ''demo-1001'',
              MoveToScheduled ''demo-1000'']) new_manager)) = [''demo-1000'']"
    by (simp add: demo_info_def queue_eval)
  from exclusive_when_ids_fresh [OF f, of 3] f u show ?thesis
    by blast
qed

text \<open>
  Claim C3 fails on the code.  \<open>generateDownloadId\<close>, documented as generating a unique
  id, appends only the clock reading to the name: two descriptors added for the same
  name at the same reading get the same id \<open>demo-1000\<close>; \<open>moveToUpNext\<close> moves the first
  one, and the id is then in \<open>scheduled\<close> and in \<open>upNext\<close>.  The same happens at different
  clock readings for an input that carries its own id, which replaces the generated one.
\<close>

theorem same_id_in_both_queues:
  "generateDownloadId 1000 demo_info = ''demo-1000''
   \<and> ids_of (run_ops [AddToQueue 1000 1000 demo_info, AddToQueue 1000 1000 demo_info,
                       MoveToUpNext ''demo-1000''] new_manager)
        (scheduled (run_ops [AddToQueue 1000 1000 demo_info, AddToQueue 1000 1000 demo_info,
                             MoveToUpNext ''demo-1000''] new_manager)) = [''demo-1000'']
   \<and> ids_of (run_ops [AddToQueue 1000 1000 demo_info, AddToQueue 1000 1000 demo_info,
                       MoveToUpNext ''demo-1000''] new_manager)
        (upNext (run_ops [AddToQueue 1000 1000 demo_info, AddToQueue 1000 1000 demo_info,
                          MoveToUpNext ''demo-1000''] new_manager)) = [''demo-1000'']
   \<and> \<not> exclusive (run_ops [AddToQueue 1000 1000 demo_info, AddToQueue 1000 1000 demo_info,
                             MoveToUpNext ''demo-1000''] new_manager)
   \<and> \<not> exclusive (run_ops [AddToQueue 1000 1000 clipper_info, AddToQueue 2000 2000 clipper_info,
                             MoveToUpNext ''clipper''] new_manager)"
  by (simp add: demo_info_def clipper_info_def queue_eval)

lemma addToQueue_descriptor:
  "addToQueue now_ms added info s = (r, s1) \<Longrightarrow>
     r = next_ref s
     \<and> id_d (heap s1 r) = (case id_i info of Some i \<Rightarrow> i | None \<Rightarrow> generateDownloadId now_ms info)
     \<and> status (heap s1 r) = Queued \<and> progress (heap s1 r) = Num 0
     \<and> downloadedBytes (heap s1 r) = 0 \<and> totalBytes (heap s1 r) = 0
     \<and> scheduled s1 = scheduled s @ [r] \<and> upNext s1 = upNext s \<and> complete_q s1 = complete_q s
     \<and> persisted s1 = (map (heap s1) (scheduled s1), map (heap s1) (complete_q s1),
                        map (heap s1) (upNext s1))
     \<and> events s1 = events s @ [QueuesUpdated (getAllQueues s1)]"
  by (auto simp: addToQueue_def saveQueues_def emit_def getAllQueues_def Let_def)

text \<open>
  Claim C7 fails for an input that carries an \<open>id\<close>: the spread of \<open>downloadInfo\<close> comes
  after the generated id in the object literal and replaces it.  For the input with id
  \<open>clipper\<close> at time 1000 the generated id is \<open>clipper-1000\<close>, the descriptor's id is
  \<open>clipper\<close>, and adding the same input twice gives two descriptors with the same id.
  The rest of the claim holds (\<open>addToQueue_descriptor\<close>).
\<close>

theorem addToQueue_id_from_info:
  "generateDownloadId 1000 clipper_info = ''clipper-1000''
   \<and> id_d (heap (snd (addToQueue 1000 1000 clipper_info new_manager))
            (fst (addToQueue 1000 1000 clipper_info new_manager))) = ''clipper''
   \<and> ids_of (run_ops [AddToQueue 1000 1000 clipper_info, AddToQueue 2000 2000 clipper_info] new_manager)
        (scheduled (run_ops [AddToQueue 1000 1000 clipper_info, AddToQueue 2000 2000 clipper_info]
           new_manager)) = [''clipper'', ''clipper'']"
  by (simp add: clipper_info_def queue_eval)

lemma demo_queued_eval:
  "upNext demo_queued = [0]" "scheduled demo_queued = []" "activeDownloads demo_queued = []"
  "id_d (heap demo_queued 0) = ''demo-1000''"
  by (simp_all add: demo_queued_def demo_info_def queue_eval)

lemma demo_started_eval:
  "upNext demo_started = [0]"
  "activeDownloads demo_started = [(''demo-1000'', \<lparr>download_a = 0, request = None\<rparr>)]"
  "id_d (heap demo_started 0) = ''demo-1000''"
  "status (heap demo_started 0) = Downloading"
  by (simp_all add: demo_started_def startNextDownload_def startDownload_begin_def
      demo_queued_eval saveQueues_def emit_def set_download_def Let_def)

text \<open>
  Claim C8.  When \<open>upNext\<close> is empty, or its head already has an entry in
  \<open>activeDownloads\<close>, \<open>startNextDownload\<close> returns \<open>null\<close> and the manager is unchanged:
  its queues, its active map, its paused set, the persisted queues and the emitted events.
\<close>

theorem startNextDownload_noop:
  assumes "upNext s = []
     \<or> (\<exists>d rest. upNext s = d # rest \<and> map_of (activeDownloads s) (id_d (heap s d)) \<noteq> None)"
  shows "startNextDownload started s = (None, s)"
  using assms by (auto simp: startNextDownload_def)

theorem startNextDownload_noop_witness:
  "upNext new_manager = []
   \<and> startNextDownload 5 new_manager = (None, new_manager)
   \<and> upNext demo_started = [0]
   \<and> map_of (activeDownloads demo_started) (id_d (heap demo_started 0))
        = Some \<lparr>download_a = 0, request = None\<rparr>
   \<and> startNextDownload 5 demo_started = (None, demo_started)"
proof -
  have a: "upNext new_manager = []"
    by (simp add: new_manager_def)
  have b: "upNext demo_started = [0]"
    by (rule demo_started_eval)
  have c: "map_of (activeDownloads demo_started) (id_d (heap demo_started 0))
        = Some \<lparr>download_a = 0, request = None\<rparr>"
    by (simp add: demo_started_eval)
  from a have "startNextDownload 5 new_manager = (None, new_manager)"
    by (intro startNextDownload_noop) simp
  moreover from b c have "startNextDownload 5 demo_started = (None, demo_started)"
    by (intro startNextDownload_noop) simp
  ultimately show ?thesis using a b c by simp
qed

section \<open>Transfer: theorems\<close>

lemma demo_transfer_eval:
  "download_t (fst demo_transfer) = 0" "settled (fst demo_transfer) = None"
  "filePath_t (fst demo_transfer) = ''/dl/demo-v1.0.0.zip''"
  "totalBytes_t (fst demo_transfer) = 0" "downloadedBytes_t (fst demo_transfer) = 0"
  "lastUpdate (fst demo_transfer) = 2000" "startTime (fst demo_transfer) = 2000"
  "request_t (fst demo_transfer) = 0"
  by (simp_all add: demo_transfer_def downloadFile_def Let_def
      demo_started_def startNextDownload_def startDownload_begin_def
      demo_queued_def demo_info_def queue_eval)

lemma demo_run_steps:
  "demo_run steps =
     (case run_steps True steps (fst demo_transfer) (snd demo_transfer) of
        (t, s) \<Rightarrow> (Some t, s))"
proof -
  have a: "startNextDownload 2000 demo_queued = (Some 0, demo_started)"
    by (simp add: demo_started_def startNextDownload_def demo_queued_eval)
  have b: "downloadUrl (heap demo_started 0) = Some ''/files/demo.zip''"
    and c: "fileName_of (heap demo_started 0) = ''demo-v1.0.0.zip''"
    by (simp_all add: demo_started_def startNextDownload_def startDownload_begin_def
        demo_queued_def demo_info_def queue_eval fileName_of_def alnum_def)
  have d: "downloadFile 2000 2000 ''http://localhost:3000/files/demo.zip''
      ''/dl/demo-v1.0.0.zip'' 0 demo_started = demo_transfer"
    by (simp add: demo_transfer_def)
  show ?thesis
    by (simp add: demo_run_def startNextDownload_run_def a startDownload_rest_def demo_env_def
        b c d fullUrl_of_def path_join_def case_prod_beta)
qed

lemma paused_chunk_rejects:
  assumes "id_d (heap s (download_t t)) \<in> pausedDownloads s" and "settled t = None"
  shows "settled (fst (on_data len now_ms t s)) = Some (Rejected ''Download paused'')
     \<and> stream_closed (fst (on_data len now_ms t s))
     \<and> files (snd (on_data len now_ms t s)) = files s
     \<and> heap (snd (on_data len now_ms t s)) = heap s"
  using assms by (simp add: on_data_def settle_def Let_def)

lemma paused_chunk_unlinks:
  assumes "id_d (heap s (download_t t)) \<in> pausedDownloads s"
  shows "files (snd (piped_write (fst (on_data len now_ms t s)) (snd (on_data len now_ms t s))))
           = files s - {filePath_t t}"
  using assms by (simp add: on_data_def piped_write_def on_write_error_def settle_def Let_def)

lemma on_request_error_keeps_file:
  "files (snd (on_request_error message t s)) = files s
   \<and> (settled t = None \<longrightarrow> settled (fst (on_request_error message t s)) = Some (Rejected message))"
  by (simp add: on_request_error_def settle_def)

lemma startDownload_catch_error:
  "status (heap (startDownload_catch message d s) d) = Error
   \<and> error (heap (startDownload_catch message d s) d) = Some message
   \<and> events (startDownload_catch message d s)
        = events s @ [QueuesUpdated (getAllQueues (saveQueues
              (set_download d (\<lambda>x. x\<lparr>status := Error, error := Some message\<rparr>) s
                \<lparr>activeDownloads := AList.delete (id_d (heap s d)) (activeDownloads s)\<rparr>))),
            DownloadError (heap (startDownload_catch message d s) d)]
   \<and> files (startDownload_catch message d s) = files s"
  by (simp add: startDownload_catch_def saveQueues_def emit_def set_download_def
      getAllQueues_def Let_def)

text \<open>
  Claim C1 fails on the code.  The download started by \<open>startNextDownload\<close> receives a
  chunk and is paused: its status is \<open>paused\<close> and the promise is open.  The next chunk
  finds the id in the paused set and rejects with \<open>Download paused\<close>; the \<open>catch\<close> of
  \<open>startDownload\<close> then sets the status \<open>error\<close> and emits \<open>download-error\<close>, and the
  \<open>catch\<close> of \<open>startNextDownload\<close> emits it once more.  This is so for every paused
  transfer (\<open>paused_chunk_rejects\<close>, \<open>startDownload_catch_error\<close>).
\<close>

theorem pause_abort_sets_error:
  "status (heap (snd (demo_run
       [Response 2001 ok_1000, Data 400 2100, PauseCall ''demo-1000''])) 0) = Paused
   \<and> map_option settled (fst (demo_run
       [Response 2001 ok_1000, Data 400 2100, PauseCall ''demo-1000''])) = Some None
   \<and> map_option settled (fst (demo_run
       [Response 2001 ok_1000, Data 400 2100, PauseCall ''demo-1000'', Data 400 2200]))
        = Some (Some (Rejected ''Download paused''))
   \<and> status (heap (snd (demo_run
       [Response 2001 ok_1000, Data 400 2100, PauseCall ''demo-1000'', Data 400 2200])) 0) = Error
   \<and> error (heap (snd (demo_run
       [Response 2001 ok_1000, Data 400 2100, PauseCall ''demo-1000'', Data 400 2200])) 0)
        = Some ''Download paused''
   \<and> map id_d (error_events (events (snd (demo_run
       [Response 2001 ok_1000, Data 400 2100, PauseCall ''demo-1000'', Data 400 2200]))))
        = [''demo-1000'', ''demo-1000'']"
  by (simp add: demo_run_steps demo_eval)

text \<open>
  Claim C5 fails on the code.  Only the \<open>error\<close> callback of the write stream unlinks the
  destination file.  When the request fails during the transfer, its \<open>error\<close> callback
  only rejects: the transfer has rejected and the file created by the write stream is
  still there (\<open>on_request_error_keeps_file\<close> for every transfer).  \<open>cancelDownload\<close>
  destroys the request and unlinks nothing: the file is still there and the promise is
  left open.  After a pause the callback closes the stream, the piped write of the same
  chunk fails and the \<open>error\<close> callback of the stream unlinks the file; after a write
  error the file is gone as well; a status other than 200 rejects before any file is
  created.
\<close>

theorem request_error_leaves_file:
  "map_option settled (fst (demo_run
       [Response 2001 ok_1000, Data 400 2100, RequestError ''ECONNRESET'']))
        = Some (Some (Rejected ''ECONNRESET''))
   \<and> ''/dl/demo-v1.0.0.zip'' \<in> files (snd (demo_run
       [Response 2001 ok_1000, Data 400 2100, RequestError ''ECONNRESET'']))
   \<and> map_option settled (fst (demo_run
       [Response 2001 ok_1000, Data 400 2100, CancelCall ''demo-1000''])) = Some None
   \<and> destroyed (snd (demo_run
       [Response 2001 ok_1000, Data 400 2100, CancelCall ''demo-1000''])) = {0}
   \<and> ''/dl/demo-v1.0.0.zip'' \<in> files (snd (demo_run
       [Response 2001 ok_1000, Data 400 2100, CancelCall ''demo-1000'']))
   \<and> map_option settled (fst (demo_run
       [Response 2001 ok_1000, Data 400 2100, PauseCall ''demo-1000'', Data 400 2200]))
        = Some (Some (Rejected ''Download paused''))
   \<and> ''/dl/demo-v1.0.0.zip'' \<notin> files (snd (demo_run
       [Response 2001 ok_1000, Data 400 2100, PauseCall ''demo-1000'', Data 400 2200]))
   \<and> map_option settled (fst (demo_run
       [Response 2001 ok_1000, Data 400 2100, WriteError ''ENOSPC'']))
        = Some (Some (Rejected ''ENOSPC''))
   \<and> ''/dl/demo-v1.0.0.zip'' \<notin> files (snd (demo_run
       [Response 2001 ok_1000, Data 400 2100, WriteError ''ENOSPC'']))
   \<and> map_option settled (fst (demo_run
       [Response 2001 \<lparr>statusCode = 404, location = None, contentLength = None\<rparr>]))
        = Some (Some (Rejected ''Download failed with status 404''))
   \<and> files (snd (demo_run
       [Response 2001 \<lparr>statusCode = 404, location = None, contentLength = None\<rparr>])) = {}"
  by (simp add: demo_run_steps demo_eval)

lemma Math_round_nearest:
  "\<exists>n. Math_round (Num x) = Num (of_int n) \<and> x - 1 / 2 < of_int n \<and> of_int n \<le> x + 1 / 2"
proof (intro exI conjI)
  show "Math_round (Num x) = Num (of_int \<lfloor>x + 1 / 2\<rfloor>)"
    by simp
  have "x + 1 / 2 < of_int \<lfloor>x + 1 / 2\<rfloor> + 1"
    by linarith
  then show "x - 1 / 2 < of_int \<lfloor>x + 1 / 2\<rfloor>"
    by linarith
  show "of_int \<lfloor>x + 1 / 2\<rfloor> \<le> x + 1 / 2"
    by linarith
qed

lemma on_data_fields:
  assumes "id_d (heap s (download_t t)) \<notin> pausedDownloads s"
  shows "downloadedBytes (heap (snd (on_data len now_ms t s)) (download_t t))
           = downloadedBytes_t t + len"
    and "0 < totalBytes_t t \<Longrightarrow>
         progress (heap (snd (on_data len now_ms t s)) (download_t t))
           = progress_of (downloadedBytes_t t + len) (totalBytes_t t)"
    and "\<not> 0 < totalBytes_t t \<Longrightarrow>
         progress (heap (snd (on_data len now_ms t s)) (download_t t))
           = progress (heap s (download_t t))"
  using assms
  by (simp_all add: on_data_def Let_def set_download_def saveQueues_def emit_def)

text \<open>
  Claim C6, as amended.  After a chunk that is not stopped by a pause, the descriptor's
  \<open>downloadedBytes\<close> is the running total.  When the announced total is positive, its
  \<open>progress\<close> is \<open>Math.round((downloadedBytes / totalBytes) * 100)\<close> computed on binary64
  numbers: the integer nearest to that product, a tie going up, not its floor.  When the
  total is unknown (0), \<open>progress\<close> keeps the value it had.
\<close>

theorem on_data_progress:
  "id_d (heap s (download_t t)) \<notin> pausedDownloads s \<longrightarrow>
     downloadedBytes (heap (snd (on_data len now_ms t s)) (download_t t))
       = downloadedBytes_t t + len
     \<and> (0 < totalBytes_t t \<longrightarrow>
          progress (heap (snd (on_data len now_ms t s)) (download_t t))
            = Math_round (js_mul (js_div (Num (real (downloadedBytes_t t + len)))
                                        (Num (real_of_int (totalBytes_t t)))) (Num 100)))
     \<and> (totalBytes_t t \<le> 0 \<longrightarrow>
          progress (heap (snd (on_data len now_ms t s)) (download_t t))
            = progress (heap s (download_t t)))
     \<and> (\<exists>n. Math_round (Num x) = Num (of_int n) \<and> x - 1 / 2 < of_int n \<and> of_int n \<le> x + 1 / 2)"
  using on_data_fields [of s t len now_ms] Math_round_nearest [of x]
  by (auto simp: progress_of_def)

theorem on_data_progress_witness:
  "id_d (heap (snd (run_steps True [Response 2001 ok_3] (fst demo_transfer) (snd demo_transfer)))
        (download_t (fst (run_steps True [Response 2001 ok_3] (fst demo_transfer) (snd demo_transfer)))))
     \<notin> pausedDownloads (snd (run_steps True [Response 2001 ok_3] (fst demo_transfer) (snd demo_transfer)))
   \<and> 0 < totalBytes_t (fst (run_steps True [Response 2001 ok_3] (fst demo_transfer) (snd demo_transfer)))
   \<and> downloadedBytes (heap (snd (on_data 2 2100
        (fst (run_steps True [Response 2001 ok_3] (fst demo_transfer) (snd demo_transfer)))
        (snd (run_steps True [Response 2001 ok_3] (fst demo_transfer) (snd demo_transfer)))))
        (download_t (fst (run_steps True [Response 2001 ok_3] (fst demo_transfer) (snd demo_transfer)))))
       = 2
   \<and> progress (heap (snd (on_data 2 2100
        (fst (run_steps True [Response 2001 ok_3] (fst demo_transfer) (snd demo_transfer)))
        (snd (run_steps True [Response 2001 ok_3] (fst demo_transfer) (snd demo_transfer)))))
        (download_t (fst (run_steps True [Response 2001 ok_3] (fst demo_transfer) (snd demo_transfer)))))
       = Num 67"
proof -
  let ?t = "fst (run_steps True [Response 2001 ok_3] (fst demo_transfer) (snd demo_transfer))"
  let ?s = "snd (run_steps True [Response 2001 ok_3] (fst demo_transfer) (snd demo_transfer))"
  have a: "id_d (heap ?s (download_t ?t)) \<notin> pausedDownloads ?s"
    by (simp add: demo_eval)
  have b: "0 < totalBytes_t ?t" "totalBytes_t ?t = 3" "downloadedBytes_t ?t = 0"
    by (simp_all add: demo_eval)
  have c: "Math_round (js_mul (js_div (Num (real (0 + 2))) (Num (real_of_int 3))) (Num 100)) = Num 67"
    by (simp add: double_eval)
  from on_data_progress [of ?s ?t 2 2100 0] a b c show ?thesis
    by simp
qed

text \<open>
  Claim C6 as stated fails: with 2 of 3 bytes received the code sets \<open>progress\<close> to 67,
  and the floor of \<open>2 / 3 * 100\<close> is 66.
\<close>

theorem progress_floor_counterexample:
  "progress (heap (snd (demo_run
       [Response 2001 ok_3, Data 2 2100])) 0) = Num 67
   \<and> downloadedBytes (heap (snd (demo_run
       [Response 2001 ok_3, Data 2 2100])) 0) = 2
   \<and> totalBytes (heap (snd (demo_run
       [Response 2001 ok_3, Data 2 2100])) 0) = 3
   \<and> \<lfloor>(2 :: real) / 3 * 100\<rfloor> = 66"
  by (simp add: demo_run_steps demo_eval)

section \<open>Module installation: theorems\<close>




















end
